theory Spec2Isabelle
  imports Complex_Main "HOL-Library.Multiset"
begin

section \<open>Data model\<close>

text \<open>
  The program (\<^verbatim>\<open>genericsync.py\<close>) moves values between two pandas data frames. A cell
  of a frame is a Python value. The embedding keeps the kinds of value the code
  distinguishes: the three missing markers that \<^verbatim>\<open>fillna\<close> replaces and that \<^verbatim>\<open>str\<close>
  renders differently, text, whole numbers, timestamps (carried by their \<^verbatim>\<open>str()\<close>
  rendering) and the point dictionary that \<^verbatim>\<open>fetch_ago_data\<close> stores under
  \<^verbatim>\<open>'geometry'\<close>. Floating-point numbers and column dtypes are outside the embedding.
\<close>

datatype na = PyNone | NaN | NaT

datatype cell =
    NA na
  | Str string
  | Num int
  | Timestamp string
  | Geometry "(string \<times> int) list"

text \<open>
  A data frame is its column labels and its rows, each row aligned with the labels.
  Both fetchers build frames with pairwise different labels (dictionary keys, the
  columns of one table) and full rows; \<open>wf_frame\<close> records that.
\<close>

record dataframe =
  columns :: "string list"
  rows :: "cell list list"

definition wf_frame :: "dataframe \<Rightarrow> bool" where
  "wf_frame df \<longleftrightarrow>
     distinct (columns df) \<and> list_all (\<lambda>r. length r = length (columns df)) (rows df)"

text \<open>The exceptions the modelled code paths raise.\<close>

datatype error = KeyError | TypeError | ValueError | MergeError | UnboundLocalError

section \<open>Python text primitives\<close>

text \<open>\<^verbatim>\<open>sub in s\<close> on strings: \<open>sub\<close> occurs in \<open>s\<close> as a contiguous substring.\<close>

definition starts_with :: "string \<Rightarrow> string \<Rightarrow> bool" where
  "starts_with sub s \<longleftrightarrow> take (length sub) s = sub"

fun contains :: "string \<Rightarrow> string \<Rightarrow> bool" where
  "contains sub [] = (sub = [])"
| "contains sub (c # cs) = (starts_with sub (c # cs) \<or> contains sub cs)"

text \<open>\<^verbatim>\<open>str(n)\<close> for a whole number: decimal digits, a leading minus sign.\<close>

definition digit_char :: "nat \<Rightarrow> char" where
  "digit_char d = char_of (48 + d)"

function str_nat :: "nat \<Rightarrow> string" where
  "str_nat n = (if n < 10 then [digit_char n] else str_nat (n div 10) @ [digit_char (n mod 10)])"
  by pat_completeness auto
termination
  by (relation "measure id") auto

definition str_int :: "int \<Rightarrow> string" where
  "str_int i = (if i < 0 then CHR ''-'' # str_nat (nat (- i)) else str_nat (nat i))"

text \<open>
  \<^verbatim>\<open>str(d)\<close> for a dictionary with text keys and whole-number values, as in
  \<^verbatim>\<open>{'x': 1, 'y': 2}\<close>. Keys are field names (no quote or escape characters).
\<close>

definition repr_item :: "string \<times> int \<Rightarrow> string" where
  "repr_item kv = [CHR 0x27] @ fst kv @ [CHR 0x27] @ '': '' @ str_int (snd kv)"

fun join_comma :: "string list \<Rightarrow> string" where
  "join_comma [] = []"
| "join_comma [s] = s"
| "join_comma (s # t # ss) = s @ '', '' @ join_comma (t # ss)"

definition str_dict :: "(string \<times> int) list \<Rightarrow> string" where
  "str_dict d = ''{'' @ join_comma (map repr_item d) @ ''}''"

text \<open>
  \<^verbatim>\<open>str(x)\<close> of a cell value. A missing marker is an ordinary Python object for
  \<^verbatim>\<open>str\<close>: \<^verbatim>\<open>'None'\<close>, \<^verbatim>\<open>'nan'\<close>, \<^verbatim>\<open>'NaT'\<close>. \<^verbatim>\<open>Series.astype(str)\<close> (pandas 1.x and 2.x)
  applies \<^verbatim>\<open>str\<close> to every element, the missing ones included.
\<close>

fun py_str :: "cell \<Rightarrow> string" where
  "py_str (NA PyNone) = ''None''"
| "py_str (NA NaN) = ''nan''"
| "py_str (NA NaT) = ''NaT''"
| "py_str (Str s) = s"
| "py_str (Num n) = str_int n"
| "py_str (Timestamp s) = s"
| "py_str (Geometry d) = str_dict d"

text \<open>
  \<^verbatim>\<open>re.sub(r'<[^>]*>', '', s)\<close>: scanning from the left, a \<^verbatim>\<open><\<close> that has a \<^verbatim>\<open>>\<close>
  somewhere after it starts a match that ends at the first such \<^verbatim>\<open>>\<close>; the match is
  deleted and scanning goes on behind it. A \<^verbatim>\<open><\<close> with no later \<^verbatim>\<open>>\<close> matches nothing
  and stays.
\<close>

function re_sub_tags :: "string \<Rightarrow> string" where
  "re_sub_tags [] = []"
| "re_sub_tags (c # cs) =
     (if c = CHR ''<'' \<and> CHR ''>'' \<in> set cs
      then re_sub_tags (tl (dropWhile (\<lambda>d. d \<noteq> CHR ''>'') cs))
      else c # re_sub_tags cs)"
  by pat_completeness auto
termination
proof (relation "measure length")
  show "wf (measure length)" by simp
next
  fix c :: char and cs :: string
  have "length (dropWhile (\<lambda>d. d \<noteq> CHR ''>'') cs) \<le> length cs"
    by (rule length_dropWhile_le)
  then show "(tl (dropWhile (\<lambda>d. d \<noteq> CHR ''>'') cs), c # cs) \<in> measure length"
    by simp
next
  fix c :: char and cs :: string
  show "(cs, c # cs) \<in> measure length" by simp
qed

section \<open>The normaliser: \<^verbatim>\<open>DataSync.prepare_data\<close> and \<^verbatim>\<open>convert_geometry\<close>\<close>

text \<open>
  \<^verbatim>\<open>
  def convert_geometry(self, geometry):
      point = Point(geometry['x'], geometry['y'])
      return wkb.dumps(point, hex=True)
  \<close>
  Subscripting with \<^verbatim>\<open>'x'\<close> raises \<^verbatim>\<open>TypeError\<close> on anything that is not a dictionary
  (\<^verbatim>\<open>None\<close>, a float, a string, a number, a timestamp) and \<^verbatim>\<open>KeyError\<close> on a dictionary
  without that key. The byte encoding of shapely's \<^verbatim>\<open>wkb.dumps\<close> is taken as the
  parameter \<open>wkb_dumps\<close>.
\<close>

definition subscript :: "cell \<Rightarrow> string \<Rightarrow> error + int" where
  "subscript g k =
     (case g of
        Geometry d \<Rightarrow> (case map_of d k of None \<Rightarrow> Inl KeyError | Some v \<Rightarrow> Inr v)
      | _ \<Rightarrow> Inl TypeError)"

definition convert_geometry :: "(int \<Rightarrow> int \<Rightarrow> string) \<Rightarrow> cell \<Rightarrow> error + cell" where
  "convert_geometry wkb_dumps geometry =
     (case subscript geometry ''x'' of
        Inl e \<Rightarrow> Inl e
      | Inr x \<Rightarrow>
          (case subscript geometry ''y'' of
             Inl e \<Rightarrow> Inl e
           | Inr y \<Rightarrow> Inr (Str (wkb_dumps x y))))"

text \<open>Applying a function that may raise along a list: the first exception ends it.\<close>

fun apply_each :: "('a \<Rightarrow> error + 'b) \<Rightarrow> 'a list \<Rightarrow> error + 'b list" where
  "apply_each f [] = Inr []"
| "apply_each f (x # xs) =
     (case f x of
        Inl e \<Rightarrow> Inl e
      | Inr y \<Rightarrow> (case apply_each f xs of Inl e \<Rightarrow> Inl e | Inr ys \<Rightarrow> Inr (y # ys)))"

text \<open>
  \<^verbatim>\<open>
  def prepare_data(self, data, spatial=False):
      data = data.copy()
      date_cols = [col for col in data.columns if 'date' in col or 'time' in col]
      for col in date_cols:
          data[col] = data[col].astype(str)
      data.fillna('', inplace=True)
      for col in data.columns:
          if 'note' in col:
              data[col] = data[col].apply(lambda x: re.sub(r'<[^>]*>', '', str(x)))
      if spatial and 'geometry' in data.columns:
          data['geometry'] = data['geometry'].apply(self.convert_geometry)
      return data
  \<close>
  Each statement is one pass over the frame, in the order of the source.
\<close>

definition is_date_col :: "string \<Rightarrow> bool" where
  "is_date_col col \<longleftrightarrow> contains ''date'' col \<or> contains ''time'' col"

definition is_note_col :: "string \<Rightarrow> bool" where
  "is_note_col col \<longleftrightarrow> contains ''note'' col"

definition on_columns :: "(string \<Rightarrow> cell \<Rightarrow> cell) \<Rightarrow> dataframe \<Rightarrow> dataframe" where
  "on_columns f df = df\<lparr>rows := map (\<lambda>r. map2 f (columns df) r) (rows df)\<rparr>"

definition astype_str_dates :: "dataframe \<Rightarrow> dataframe" where
  "astype_str_dates = on_columns (\<lambda>col v. if is_date_col col then Str (py_str v) else v)"

definition fill_cell :: "cell \<Rightarrow> cell" where
  "fill_cell v = (case v of NA _ \<Rightarrow> Str [] | _ \<Rightarrow> v)"

definition fillna :: "dataframe \<Rightarrow> dataframe" where
  "fillna = on_columns (\<lambda>col. fill_cell)"

definition strip_notes :: "dataframe \<Rightarrow> dataframe" where
  "strip_notes = on_columns (\<lambda>col v. if is_note_col col then Str (re_sub_tags (py_str v)) else v)"

definition convert_row ::
  "(int \<Rightarrow> int \<Rightarrow> string) \<Rightarrow> string list \<Rightarrow> cell list \<Rightarrow> error + cell list" where
  "convert_row wkb_dumps cols r =
     apply_each (\<lambda>(col, v). if col = ''geometry'' then convert_geometry wkb_dumps v else Inr v)
       (zip cols r)"

definition convert_geometries :: "(int \<Rightarrow> int \<Rightarrow> string) \<Rightarrow> dataframe \<Rightarrow> error + dataframe" where
  "convert_geometries wkb_dumps df =
     (case apply_each (convert_row wkb_dumps (columns df)) (rows df) of
        Inl e \<Rightarrow> Inl e
      | Inr rs \<Rightarrow> Inr (df\<lparr>rows := rs\<rparr>))"

definition prepare_data ::
  "(int \<Rightarrow> int \<Rightarrow> string) \<Rightarrow> dataframe \<Rightarrow> bool \<Rightarrow> error + dataframe" where
  "prepare_data wkb_dumps data spatial =
     (let data = strip_notes (fillna (astype_str_dates data))
      in if spatial \<and> ''geometry'' \<in> set (columns data)
         then convert_geometries wkb_dumps data
         else Inr data)"

text \<open>
  A stand-in for the byte encoder, for the concrete examples below; the general
  statements hold for every encoder.
\<close>

definition sample_wkb :: "int \<Rightarrow> int \<Rightarrow> string" where
  "sample_wkb x y = ''POINT('' @ str_int x @ '' '' @ str_int y @ '')''"

text \<open>
  The composition of the three passes on one cell of a column (used to state and
  prove what the passes do together).
\<close>

definition normal_cell :: "string \<Rightarrow> cell \<Rightarrow> cell" where
  "normal_cell col v =
     (if is_note_col col
      then Str (re_sub_tags (py_str (if is_date_col col then Str (py_str v) else fill_cell v)))
      else if is_date_col col then Str (py_str v) else fill_cell v)"

text \<open>
  The specification's wording of column detection, for comparison with the code:
  the substring test after lower-casing the column name (\<^verbatim>\<open>str.lower\<close> on ASCII
  letters).
\<close>

definition lower_char :: "char \<Rightarrow> char" where
  "lower_char c =
     (case map_of (zip ''ABCDEFGHIJKLMNOPQRSTUVWXYZ'' ''abcdefghijklmnopqrstuvwxyz'') c of
        Some d \<Rightarrow> d
      | None \<Rightarrow> c)"

definition spec_is_date_col :: "string \<Rightarrow> bool" where
  "spec_is_date_col col \<longleftrightarrow>
     contains ''date'' (map lower_char col) \<or> contains ''time'' (map lower_char col)"

definition spec_is_note_col :: "string \<Rightarrow> bool" where
  "spec_is_note_col col \<longleftrightarrow> contains ''note'' (map lower_char col)"

section \<open>The batch deliverer: \<^verbatim>\<open>DataSync.add_to_ago\<close>\<close>

text \<open>
  \<^verbatim>\<open>
  features_to_add = [Feature(attributes=row.drop(['geometry'], errors='ignore').to_dict())
                     for _, row in data.iterrows()]
  results = []
  chunk_size = 100
  added = 0
  for i in range(0, len(features_to_add), chunk_size):
      chunk = features_to_add[i:i + chunk_size]
      result = layer.edit_features(adds=chunk)
      results.append(result)
      added += len(chunk)
  print(f"Added {len(features_to_add)} records to AGO.")
  return result
  \<close>
  The model starts where the layer handle has been looked up. The layer is the
  outside world: it is given by its answer \<open>edit_features history chunk\<close> to a chunk,
  which may depend on every chunk it has received before, and the chunks it receives
  are recorded in \<open>submitted\<close>. An answer of type \<open>'r\<close> is what \<^verbatim>\<open>edit_features\<close>
  returns, failures it reports included; an exception raised inside the library call
  (a transport error) is outside the model. The local variable \<^verbatim>\<open>result\<close> is unbound
  until the first iteration assigns it.
\<close>

type_synonym feature = "(string \<times> cell) list"

definition to_feature :: "string list \<Rightarrow> cell list \<Rightarrow> feature" where
  "to_feature cols r = filter (\<lambda>(col, v). col \<noteq> ''geometry'') (zip cols r)"

record 'r delivery =
  results :: "'r list"
  added :: nat
  result :: "'r option"
  submitted :: "feature list list"

definition chunk_size :: nat where
  "chunk_size = 100"

function add_loop ::
  "(feature list list \<Rightarrow> feature list \<Rightarrow> 'r) \<Rightarrow> feature list \<Rightarrow> nat \<Rightarrow> 'r delivery
     \<Rightarrow> 'r delivery" where
  "add_loop edit_features features_to_add i st =
     (if i < length features_to_add
      then
        (let chunk = take chunk_size (drop i features_to_add);
             res = edit_features (submitted st) chunk
         in add_loop edit_features features_to_add (i + chunk_size)
              \<lparr>results = results st @ [res],
               added = added st + length chunk,
               result = Some res,
               submitted = submitted st @ [chunk]\<rparr>)
      else st)"
  by pat_completeness auto
termination
  by (relation "measure (\<lambda>(e, fs, i, st). length fs - i)") (auto simp: chunk_size_def)

definition add_to_ago ::
  "(feature list list \<Rightarrow> feature list \<Rightarrow> 'r) \<Rightarrow> dataframe \<Rightarrow> 'r delivery \<times> (error + 'r)" where
  "add_to_ago edit_features data =
     (let features_to_add = map (to_feature (columns data)) (rows data);
          st = add_loop edit_features features_to_add 0
                 \<lparr>results = [], added = 0, result = None, submitted = []\<rparr>
      in (st, case result st of None \<Rightarrow> Inl UnboundLocalError | Some res \<Rightarrow> Inr res))"

text \<open>
  For the concrete examples: a layer that answers with the number of records in the
  chunk, and the frame with one column \<^verbatim>\<open>id\<close> and the rows \<open>0, \<dots>, n - 1\<close>.
\<close>

definition count_layer :: "feature list list \<Rightarrow> feature list \<Rightarrow> nat" where
  "count_layer history chunk = length chunk"

definition numbered_rows :: "nat \<Rightarrow> dataframe" where
  "numbered_rows n = \<lparr>columns = [''id''], rows = map (\<lambda>i. [Num (int i)]) [0..<n]\<rparr>"

section \<open>The differ: the body of \<^verbatim>\<open>DataSync.sync_data\<close>\<close>

subsection \<open>Column selection\<close>

text \<open>The cells of a row that stand under the labels satisfying \<open>P\<close>.\<close>

definition pick :: "(string \<Rightarrow> bool) \<Rightarrow> string list \<Rightarrow> cell list \<Rightarrow> cell list" where
  "pick P cols r = map snd (filter (\<lambda>(col, v). P col) (zip cols r))"

text \<open>
  \<^verbatim>\<open>df[labels]\<close>: \<^verbatim>\<open>KeyError\<close> when a label is not a column; otherwise, for each
  requested label in turn, every column that carries it.
\<close>

definition getitem :: "string list \<Rightarrow> dataframe \<Rightarrow> error + dataframe" where
  "getitem labels df =
     (if \<not> set labels \<subseteq> set (columns df) then Inl KeyError
      else Inr \<lparr>columns = concat (map (\<lambda>l. filter (\<lambda>col. col = l) (columns df)) labels),
                rows = map (\<lambda>r. concat (map (\<lambda>l. pick (\<lambda>col. col = l) (columns df) r) labels))
                         (rows df)\<rparr>)"

subsection \<open>\<^verbatim>\<open>pd.merge(left, right, how='outer', on=on, indicator=True)\<close>\<close>

text \<open>
  The library call is modelled from the behaviour of pandas 2.x:
  \<^item> a key that is not a column of both frames raises \<^verbatim>\<open>KeyError\<close>; an empty key list
    is rejected (with an exception whose class depends on the version; the model
    says \<^verbatim>\<open>MergeError\<close>);
  \<^item> with \<^verbatim>\<open>indicator=True\<close>, a frame that already has a column \<^verbatim>\<open>_merge\<close>,
    \<^verbatim>\<open>_left_indicator\<close> or \<^verbatim>\<open>_right_indicator\<close> raises \<^verbatim>\<open>ValueError\<close>;
  \<^item> a column that is in both frames and is not a key is kept twice, the left one
    with the suffix \<^verbatim>\<open>_x\<close>, the right one with \<^verbatim>\<open>_y\<close>; suffixes that make two
    labels of one side equal raise \<^verbatim>\<open>MergeError\<close>;
  \<^item> the result has the left columns, the right columns that are not keys, and
    \<^verbatim>\<open>_merge\<close>; a left row with no partner is \<^verbatim>\<open>left_only\<close> and has \<^verbatim>\<open>NaN\<close> in the
    right columns; a right row with no partner is \<^verbatim>\<open>right_only\<close>, has its keys in the
    key columns and \<^verbatim>\<open>NaN\<close> in the other left columns; every matching pair is one row
    \<^verbatim>\<open>both\<close>;
  \<^item> missing markers in a key column match each other.

  pandas also refuses key columns whose dtypes do not go together (numbers on one
  side, text on the other). Dtypes are outside the embedding: the key columns are
  taken to hold values of one kind in both frames.

  pandas orders the rows of an outer join by key. The embedding keeps the order of the
  frames (left rows first), so statements below about the rows of a result are about
  the multiset of rows.
\<close>

definition key_cell :: "cell \<Rightarrow> cell" where
  "key_cell v = (case v of NA _ \<Rightarrow> NA NaN | _ \<Rightarrow> v)"

definition key_tuple :: "string list \<Rightarrow> string list \<Rightarrow> cell list \<Rightarrow> cell list" where
  "key_tuple on cols r =
     map (\<lambda>k. case map_of (zip cols r) k of None \<Rightarrow> NA NaN | Some v \<Rightarrow> key_cell v) on"

definition indicator_names :: "string list" where
  "indicator_names = [''_merge'', ''_left_indicator'', ''_right_indicator'']"

definition left_rows :: "string list \<Rightarrow> dataframe \<Rightarrow> dataframe \<Rightarrow> cell list \<Rightarrow> cell list list" where
  "left_rows on left right lr =
     (let partners = filter (\<lambda>rr. key_tuple on (columns right) rr = key_tuple on (columns left) lr)
                       (rows right)
      in if partners = []
         then [lr @ pick (\<lambda>col. col \<notin> set on) (columns right)
                      (replicate (length (columns right)) (NA NaN)) @ [Str ''left_only'']]
         else map (\<lambda>rr. lr @ pick (\<lambda>col. col \<notin> set on) (columns right) rr @ [Str ''both''])
                partners)"

definition right_only_rows :: "string list \<Rightarrow> dataframe \<Rightarrow> dataframe \<Rightarrow> cell list list" where
  "right_only_rows on left right =
     map (\<lambda>rr. map (\<lambda>col. if col \<in> set on
                           then (case map_of (zip (columns right) rr) col of
                                   None \<Rightarrow> NA NaN | Some v \<Rightarrow> v)
                           else NA NaN) (columns left)
               @ pick (\<lambda>col. col \<notin> set on) (columns right) rr @ [Str ''right_only''])
       (filter (\<lambda>rr. key_tuple on (columns right) rr
                        \<notin> set (map (key_tuple on (columns left)) (rows left)))
          (rows right))"

text \<open>
  The labels of the result: a column of both frames that is not a key is suffixed on
  each side; the key columns of the right frame are not repeated.
\<close>

definition overlap :: "dataframe \<Rightarrow> dataframe \<Rightarrow> string list \<Rightarrow> string \<Rightarrow> bool" where
  "overlap left right on col \<longleftrightarrow>
     col \<in> set (columns left) \<and> col \<in> set (columns right) \<and> col \<notin> set on"

definition llabels :: "dataframe \<Rightarrow> dataframe \<Rightarrow> string list \<Rightarrow> string list" where
  "llabels left right on =
     map (\<lambda>col. if overlap left right on col then col @ ''_x'' else col) (columns left)"

definition rlabels :: "dataframe \<Rightarrow> dataframe \<Rightarrow> string list \<Rightarrow> string list" where
  "rlabels left right on =
     map (\<lambda>col. if overlap left right on col then col @ ''_y'' else col)
       (filter (\<lambda>col. col \<notin> set on) (columns right))"

definition pd_merge :: "dataframe \<Rightarrow> dataframe \<Rightarrow> string list \<Rightarrow> error + dataframe" where
  "pd_merge left right on =
     (if on = [] then Inl MergeError
      else if \<not> (set on \<subseteq> set (columns left) \<and> set on \<subseteq> set (columns right))
      then Inl KeyError
      else if set indicator_names \<inter> (set (columns left) \<union> set (columns right)) \<noteq> {}
      then Inl ValueError
      else if \<not> (distinct (llabels left right on) \<and> distinct (rlabels left right on))
      then Inl MergeError
      else Inr \<lparr>columns = llabels left right on @ rlabels left right on @ [''_merge''],
                rows = concat (map (left_rows on left right) (rows left))
                       @ right_only_rows on left right\<rparr>)"

subsection \<open>The statements of \<^verbatim>\<open>sync_data\<close> after the merge\<close>

text \<open>
  \<^verbatim>\<open>records_to_add = merged[merged['_merge'] == 'left_only'].drop('_merge', axis=1)\<close>
\<close>

definition select_left_only :: "dataframe \<Rightarrow> error + dataframe" where
  "select_left_only merged =
     (if ''_merge'' \<notin> set (columns merged) then Inl KeyError
      else Inr \<lparr>columns = filter (\<lambda>col. col \<noteq> ''_merge'') (columns merged),
                rows = map (pick (\<lambda>col. col \<noteq> ''_merge'') (columns merged))
                         (filter (\<lambda>r. map_of (zip (columns merged) r) ''_merge''
                                         = Some (Str ''left_only''))
                            (rows merged))\<rparr>)"

text \<open>
  \<^verbatim>\<open>
  # drop all the columns with an _y suffix
  records_to_add = records_to_add[records_to_add.columns.drop(
                                      list(records_to_add.filter(regex='_y')))]
  \<close>
  \<^verbatim>\<open>filter(regex='_y')\<close> keeps the labels in which \<^verbatim>\<open>re.search('_y', label)\<close> finds a
  match, that is, those that contain \<^verbatim>\<open>_y\<close> anywhere.
\<close>

definition drop_y :: "dataframe \<Rightarrow> error + dataframe" where
  "drop_y df = getitem (filter (\<lambda>col. \<not> contains ''_y'' col) (columns df)) df"

text \<open>
  \<^verbatim>\<open>
  # rename all the columns with an _x suffix to remove the suffix
  records_to_add.columns = records_to_add.columns.str.replace('_x', '')
  \<close>
  \<^verbatim>\<open>str.replace\<close> deletes every occurrence of \<^verbatim>\<open>_x\<close>, scanning from the left.
\<close>

fun remove_x :: "string \<Rightarrow> string" where
  "remove_x (a # b # cs) =
     (if a = CHR ''_'' \<and> b = CHR ''x'' then remove_x cs else a # remove_x (b # cs))"
| "remove_x cs = cs"

definition rename_x :: "dataframe \<Rightarrow> dataframe" where
  "rename_x df = df\<lparr>columns := map remove_x (columns df)\<rparr>"

text \<open>\<^verbatim>\<open>DataFrame.empty\<close>: an axis of length 0.\<close>

definition empty_frame :: "dataframe \<Rightarrow> bool" where
  "empty_frame df \<longleftrightarrow> rows df = [] \<or> columns df = []"

text \<open>
  Lines 68 to 75 of \<^verbatim>\<open>sync_data\<close>: the frame \<^verbatim>\<open>records_to_add\<close> that reaches the test
  \<^verbatim>\<open>if not records_to_add.empty\<close>.
  \<^verbatim>\<open>
  merged = pd.merge(db_data, ago_data, how='outer', on=key_columns, indicator=True)
  records_to_add = merged[merged['_merge'] == 'left_only'].drop('_merge', axis=1)
  records_to_add = records_to_add[...drop(list(records_to_add.filter(regex='_y')))]
  records_to_add.columns = records_to_add.columns.str.replace('_x', '')
  # drop all the coumns not in the db_data
  records_to_add = records_to_add[db_data.columns]
  \<close>
\<close>

definition records_to_add :: "dataframe \<Rightarrow> dataframe \<Rightarrow> string list \<Rightarrow> error + dataframe" where
  "records_to_add ago_data db_data key_columns =
     (case pd_merge db_data ago_data key_columns of
        Inl e \<Rightarrow> Inl e
      | Inr merged \<Rightarrow>
          (case select_left_only merged of
             Inl e \<Rightarrow> Inl e
           | Inr selected \<Rightarrow>
               (case drop_y selected of
                  Inl e \<Rightarrow> Inl e
                | Inr dropped \<Rightarrow> getitem (columns db_data) (rename_x dropped))))"

text \<open>
  \<^verbatim>\<open>
  def sync_data(self, fs_id, ago_layer, db_table, key_columns):
      ago_data = self.fetch_ago_data(fs_id, ago_layer)
      db_data = self.fetch_db_data(db_table)
      ... (lines 68 to 75)
      if not records_to_add.empty:
          self.add_to_ago(fs_id, ago_layer, records_to_add)
      else:
          print("No new records to sync.")
  \<close>
  The two fetches are calls to the outside; the model takes the frames they returned.
  A run ends with an exception, with the message that there is nothing to add, or
  with the frame handed to \<^verbatim>\<open>add_to_ago\<close> and the state the delivery loop ended in.
\<close>

datatype 'r outcome = NoNewRecords | Delivered dataframe "'r delivery"

definition sync_data ::
  "(feature list list \<Rightarrow> feature list \<Rightarrow> 'r) \<Rightarrow> dataframe \<Rightarrow> dataframe \<Rightarrow> string list
     \<Rightarrow> error + 'r outcome" where
  "sync_data edit_features ago_data db_data key_columns =
     (case records_to_add ago_data db_data key_columns of
        Inl e \<Rightarrow> Inl e
      | Inr to_add \<Rightarrow>
          if \<not> empty_frame to_add
          then (case add_to_ago edit_features to_add of
                  (st, Inl e) \<Rightarrow> Inl e
                | (st, Inr res) \<Rightarrow> Inr (Delivered to_add st))
          else Inr NoNewRecords)"

subsection \<open>Notions used to state what the differ does\<close>

text \<open>
  A row of the left frame is unmatched when no row of the right frame has its key
  tuple: these are the rows the merge marks \<^verbatim>\<open>left_only\<close>.
\<close>

definition unmatched :: "string list \<Rightarrow> dataframe \<Rightarrow> dataframe \<Rightarrow> cell list \<Rightarrow> bool" where
  "unmatched on left right lr \<longleftrightarrow>
     key_tuple on (columns left) lr \<notin> set (map (key_tuple on (columns right)) (rows right))"

text \<open>A label is clean when it contains neither \<^verbatim>\<open>_x\<close> nor \<^verbatim>\<open>_y\<close>.\<close>

definition clean :: "string \<Rightarrow> bool" where
  "clean col \<longleftrightarrow> \<not> contains ''_x'' col \<and> \<not> contains ''_y'' col"

text \<open>The columns of the right frame that are neither keys nor columns of the left frame.\<close>

definition right_extra :: "dataframe \<Rightarrow> dataframe \<Rightarrow> string list \<Rightarrow> string list" where
  "right_extra left right on =
     filter (\<lambda>col. col \<notin> set (columns left)) (filter (\<lambda>col. col \<notin> set on) (columns right))"

subsection \<open>Sample frames\<close>

text \<open>
  A table and a layer that share the key \<^verbatim>\<open>id\<close> and the column \<^verbatim>\<open>name\<close>, and the frame
  that the merge makes of them; a table with a key twice; a table with \<^verbatim>\<open>_y\<close> inside a
  column name.
\<close>

definition db_frame :: dataframe where
  "db_frame = \<lparr>columns = [''id'', ''name'', ''notes''],
               rows = [[Num 1, Str ''ann'', Str ''ok''], [Num 2, Str ''bo'', Str ''new'']]\<rparr>"

definition ago_frame :: dataframe where
  "ago_frame = \<lparr>columns = [''id'', ''name'', ''geometry''],
                rows = [[Num 1, Str ''ann'', Geometry [(''x'', 10), (''y'', 20)]],
                        [Num 3, Str ''cy'', Geometry [(''x'', 11), (''y'', 21)]]]\<rparr>"

definition merged_frame :: dataframe where
  "merged_frame =
     \<lparr>columns = [''id'', ''name_x'', ''notes'', ''name_y'', ''geometry'', ''_merge''],
      rows = [[Num 1, Str ''ann'', Str ''ok'', Str ''ann'',
               Geometry [(''x'', 10), (''y'', 20)], Str ''both''],
              [Num 2, Str ''bo'', Str ''new'', NA NaN, NA NaN, Str ''left_only''],
              [Num 3, NA NaN, NA NaN, Str ''cy'',
               Geometry [(''x'', 11), (''y'', 21)], Str ''right_only'']]\<rparr>"

definition db_duplicates :: dataframe where
  "db_duplicates = \<lparr>columns = [''id'', ''name''],
                     rows = [[Num 1, Str ''ann''], [Num 2, Str ''bo''], [Num 2, Str ''bo'']]\<rparr>"

definition db_tax :: dataframe where
  "db_tax = \<lparr>columns = [''id'', ''tax_year''], rows = [[Num 2, Num 2020]]\<rparr>"

section \<open>Properties of the normaliser\<close>

declare str_nat.simps [simp del]

lemma zip_map2: "zip cs (map2 f cs r) = map (\<lambda>(c, v). (c, f c v)) (zip cs r)"
  by (induction cs arbitrary: r) (auto split: list.splits simp: zip_Cons1)

lemma map2_map2: "map2 f cs (map2 g cs r) = map2 (\<lambda>c v. f c (g c v)) cs r"
  unfolding zip_map2 by (simp add: case_prod_unfold)

lemma on_columns_comp: "on_columns f (on_columns g df) = on_columns (\<lambda>c v. f c (g c v)) df"
  by (simp add: on_columns_def map2_map2)

lemma columns_on_columns [simp]: "columns (on_columns f df) = columns df"
  by (simp add: on_columns_def)

lemma set_tl_dropWhile: "set (tl (dropWhile P cs)) \<subseteq> set cs"
proof
  fix x assume "x \<in> set (tl (dropWhile P cs))"
  then have "x \<in> set (dropWhile P cs)"
    by (cases "dropWhile P cs") auto
  then show "x \<in> set cs" by (rule set_dropWhileD)
qed

text \<open>Deleting tags brings in no new character, so no new tag can close.\<close>

lemma set_re_sub_tags: "set (re_sub_tags s) \<subseteq> set s"
proof (induction s rule: re_sub_tags.induct)
  case 1
  then show ?case by simp
next
  case (2 c cs)
  have "set (tl (dropWhile (\<lambda>d. d \<noteq> CHR ''>'') cs)) \<subseteq> set cs"
    by (rule set_tl_dropWhile)
  with 2 show ?case by auto
qed

lemma re_sub_tags_idem: "re_sub_tags (re_sub_tags s) = re_sub_tags s"
proof (induction s rule: re_sub_tags.induct)
  case 1
  then show ?case by simp
next
  case (2 c cs)
  show ?case
  proof (cases "c = CHR ''<'' \<and> CHR ''>'' \<in> set cs")
    case True
    with 2 show ?thesis by simp
  next
    case False
    then have no: "\<not> (c = CHR ''<'' \<and> CHR ''>'' \<in> set (re_sub_tags cs))"
      using set_re_sub_tags by blast
    from False have "re_sub_tags (c # cs) = c # re_sub_tags cs" by auto
    moreover from no have "re_sub_tags (c # re_sub_tags cs) = c # re_sub_tags (re_sub_tags cs)"
      by auto
    moreover from False 2 have "re_sub_tags (re_sub_tags cs) = re_sub_tags cs" by auto
    ultimately show ?thesis by simp
  qed
qed

lemma fill_cell_Str [simp]: "fill_cell (Str s) = Str s"
  by (simp add: fill_cell_def)

lemma fill_cell_idem [simp]: "fill_cell (fill_cell v) = fill_cell v"
  by (cases v) (simp_all add: fill_cell_def)

lemma passes_normal_cell:
  "strip_notes (fillna (astype_str_dates df)) = on_columns normal_cell df"
  unfolding strip_notes_def fillna_def astype_str_dates_def on_columns_comp normal_cell_def
  by (rule arg_cong [where f = "\<lambda>f. on_columns f df"]) (auto simp: fun_eq_iff)

lemma normal_cell_idem: "normal_cell col (normal_cell col v) = normal_cell col v"
  by (simp add: normal_cell_def re_sub_tags_idem)

lemma prepare_data_plain: "prepare_data w df False = Inr (on_columns normal_cell df)"
  by (simp add: prepare_data_def passes_normal_cell)

lemmas prepare_data_unfold =
  prepare_data_def strip_notes_def fillna_def astype_str_dates_def on_columns_def
  is_date_col_def is_note_col_def starts_with_def fill_cell_def convert_geometries_def
  convert_row_def convert_geometry_def subscript_def

text \<open>
  \<^bold>\<open>C9.\<close> Without the geometry step, normalising is idempotent: \<^verbatim>\<open>prepare_data\<close> (with
  \<^verbatim>\<open>spatial=False\<close>) returns a frame, and normalising that frame again returns it
  unchanged.
\<close>

theorem prepare_data_idempotent:
  "(case prepare_data w x False of
      Inl e \<Rightarrow> False
    | Inr d \<Rightarrow> prepare_data w d False = Inr d)"
proof -
  have "on_columns normal_cell (on_columns normal_cell x) = on_columns normal_cell x"
    by (simp add: on_columns_comp normal_cell_idem)
  then show ?thesis by (simp add: prepare_data_plain)
qed

theorem prepare_data_idempotent_witness:
  "prepare_data sample_wkb
     \<lparr>columns = [''id'', ''obs_date'', ''field_notes''],
      rows = [[NA NaN, NA NaT, Str ''<b>Hello</b> world'']]\<rparr> False
   = Inr \<lparr>columns = [''id'', ''obs_date'', ''field_notes''],
          rows = [[Str [], Str ''NaT'', Str ''Hello world'']]\<rparr> \<and>
   prepare_data sample_wkb
     \<lparr>columns = [''id'', ''obs_date'', ''field_notes''],
      rows = [[Str [], Str ''NaT'', Str ''Hello world'']]\<rparr> False
   = Inr \<lparr>columns = [''id'', ''obs_date'', ''field_notes''],
          rows = [[Str [], Str ''NaT'', Str ''Hello world'']]\<rparr>"
  using prepare_data_idempotent
          [of sample_wkb "\<lparr>columns = [''id'', ''obs_date'', ''field_notes''],
                           rows = [[NA NaN, NA NaT, Str ''<b>Hello</b> world'']]\<rparr>"]
  by (simp add: prepare_data_unfold)

text \<open>
  \<^bold>\<open>C3.\<close> The claim is that after \<^verbatim>\<open>prepare_data\<close> every missing value is the empty
  string, in the date and time columns too. The code turns the date and time columns
  into text before it calls \<^verbatim>\<open>fillna\<close>, so a missing value of such a column has
  become the text \<^verbatim>\<open>None\<close> (or \<^verbatim>\<open>nan\<close>, \<^verbatim>\<open>NaT\<close>) and \<^verbatim>\<open>fillna\<close> no longer sees it;
  the same missing value in another column becomes the empty string.
\<close>

theorem prepare_data_date_null_not_filled:
  "prepare_data sample_wkb
     \<lparr>columns = [''id'', ''obs_date''], rows = [[NA PyNone, NA PyNone]]\<rparr> False
   = Inr \<lparr>columns = [''id'', ''obs_date''], rows = [[Str [], Str ''None'']]\<rparr>"
  by (simp add: prepare_data_unfold)

text \<open>
  \<^bold>\<open>C7.\<close> The claim is that column detection ignores letter case. In the code the
  tests are \<^verbatim>\<open>'date' in col\<close>, \<^verbatim>\<open>'time' in col\<close> and \<^verbatim>\<open>'note' in col\<close> on the label as it
  is: a column \<^verbatim>\<open>Survey_Date\<close> keeps its timestamp and a column \<^verbatim>\<open>Notes\<close> keeps its
  tags, although both match after lower-casing.
\<close>

theorem uppercase_columns_not_detected:
  "spec_is_date_col ''Survey_Date'' \<and> spec_is_note_col ''Notes'' \<and>
   prepare_data sample_wkb
     \<lparr>columns = [''Survey_Date'', ''Notes''],
      rows = [[Timestamp ''2024-05-01 00:00:00'', Str ''<b>Hello</b> world'']]\<rparr> False
   = Inr \<lparr>columns = [''Survey_Date'', ''Notes''],
          rows = [[Timestamp ''2024-05-01 00:00:00'', Str ''<b>Hello</b> world'']]\<rparr>"
  by (simp add: prepare_data_unfold spec_is_date_col_def spec_is_note_col_def lower_char_def)

text \<open>
  \<^bold>\<open>C7, as amended.\<close> Detection is case-sensitive. What \<^verbatim>\<open>prepare_data\<close> (with
  \<^verbatim>\<open>spatial=False\<close>) does to a cell depends on whether the label contains the
  lower-case text \<^verbatim>\<open>date\<close> or \<^verbatim>\<open>time\<close>, and the lower-case text \<^verbatim>\<open>note\<close>: a date or
  time column holds the \<^verbatim>\<open>str\<close> of its values; a note column holds the \<^verbatim>\<open>str\<close> of its
  values with every \<^verbatim>\<open><...>\<close> deleted; every other column is left as it is, but for
  missing values, which become the empty string.
\<close>

theorem prepare_data_detection_is_case_sensitive:
  "prepare_data w data False =
     Inr (on_columns
           (\<lambda>col v.
              if contains ''note'' col
              then Str (re_sub_tags (py_str
                     (if contains ''date'' col \<or> contains ''time'' col
                      then Str (py_str v) else fill_cell v)))
              else if contains ''date'' col \<or> contains ''time'' col then Str (py_str v)
              else fill_cell v)
           data)"
  using prepare_data_plain [of w data]
  unfolding normal_cell_def [abs_def] is_date_col_def is_note_col_def .

theorem prepare_data_detection_is_case_sensitive_witness:
  "prepare_data sample_wkb
     \<lparr>columns = [''survey_date'', ''Survey_Date'', ''notes'', ''Notes''],
      rows = [[Timestamp ''2024-05-01'', Timestamp ''2024-05-01'',
               Str ''a<br>b'', Str ''a<br>b'']]\<rparr> False
   = Inr \<lparr>columns = [''survey_date'', ''Survey_Date'', ''notes'', ''Notes''],
          rows = [[Str ''2024-05-01'', Timestamp ''2024-05-01'', Str ''ab'', Str ''a<br>b'']]\<rparr>"
  using prepare_data_detection_is_case_sensitive
          [of sample_wkb "\<lparr>columns = [''survey_date'', ''Survey_Date'', ''notes'', ''Notes''],
                           rows = [[Timestamp ''2024-05-01'', Timestamp ''2024-05-01'',
                                    Str ''a<br>b'', Str ''a<br>b'']]\<rparr>"]
  by (simp add: on_columns_def starts_with_def fill_cell_def)

text \<open>
  \<^bold>\<open>C4.\<close> The claim is that a record with a missing geometry is normalised to an empty
  encoded value without an exception. In the code \<^verbatim>\<open>fillna\<close> has replaced the missing
  geometry by the empty string, and \<^verbatim>\<open>convert_geometry\<close> subscripts it with \<^verbatim>\<open>'x'\<close>:
  \<^verbatim>\<open>TypeError\<close>.
\<close>

theorem null_geometry_raises_TypeError:
  "prepare_data sample_wkb
     \<lparr>columns = [''id'', ''geometry''], rows = [[Num 7, NA PyNone]]\<rparr> True = Inl TypeError"
  by (simp add: prepare_data_unfold)

lemma isl_apply_each_iff: "isl (apply_each f xs) \<longleftrightarrow> (\<exists>x\<in>set xs. isl (f x))"
  by (induction xs) (auto split: sum.splits)

lemma isl_apply_each: "(\<exists>x\<in>set xs. isl (f x)) \<Longrightarrow> isl (apply_each f xs)"
  by (simp add: isl_apply_each_iff)

lemma geometry_not_special: "\<not> is_date_col ''geometry'' \<and> \<not> is_note_col ''geometry''"
  by (simp add: is_date_col_def is_note_col_def starts_with_def)

lemma convert_geometry_filled: "isl (convert_geometry w (fill_cell (NA k)))"
  by (simp add: convert_geometry_def subscript_def fill_cell_def)

text \<open>
  \<^bold>\<open>C4, as amended.\<close> In a spatial collection with a geometry column, a record whose
  geometry is missing makes \<^verbatim>\<open>prepare_data\<close> raise: no frame is returned. When the
  collection has no geometry column, \<^verbatim>\<open>spatial=True\<close> changes nothing: the result is
  that of \<^verbatim>\<open>spatial=False\<close>, which never raises.
\<close>

theorem prepare_data_null_geometry_raises:
  "(r \<in> set (rows data) \<and> (''geometry'', NA k) \<in> set (zip (columns data) r)
      \<longrightarrow> (\<exists>e. prepare_data w data True = Inl e)) \<and>
   (''geometry'' \<notin> set (columns data)
      \<longrightarrow> prepare_data w data True = prepare_data w data False
          \<and> (\<exists>d. prepare_data w data True = Inr d))"
proof (intro conjI impI)
  assume h: "r \<in> set (rows data) \<and> (''geometry'', NA k) \<in> set (zip (columns data) r)"
  let ?d = "on_columns normal_cell data"
  let ?r = "map2 normal_cell (columns data) r"
  from h have col: "''geometry'' \<in> set (columns data)"
    by (auto dest: set_zip_leftD)
  from h have "(''geometry'', normal_cell ''geometry'' (NA k)) \<in> set (zip (columns data) ?r)"
    unfolding zip_map2 by force
  then have "(''geometry'', fill_cell (NA k)) \<in> set (zip (columns data) ?r)"
    by (simp add: normal_cell_def geometry_not_special)
  then have "isl (convert_row w (columns data) ?r)"
    unfolding convert_row_def
    by (intro isl_apply_each bexI [where x = "(''geometry'', fill_cell (NA k))"])
       (simp_all add: convert_geometry_filled)
  moreover from h have "?r \<in> set (rows ?d)"
    by (simp add: on_columns_def)
  ultimately have "isl (apply_each (convert_row w (columns ?d)) (rows ?d))"
    by (intro isl_apply_each) auto
  then have "isl (convert_geometries w ?d)"
    by (auto simp: convert_geometries_def split: sum.splits)
  with col have "isl (prepare_data w data True)"
    by (simp add: prepare_data_def passes_normal_cell)
  then show "\<exists>e. prepare_data w data True = Inl e"
    by (cases "prepare_data w data True") auto
next
  assume "''geometry'' \<notin> set (columns data)"
  then show "prepare_data w data True = prepare_data w data False"
    by (simp add: prepare_data_def strip_notes_def fillna_def astype_str_dates_def)
next
  assume "''geometry'' \<notin> set (columns data)"
  then show "\<exists>d. prepare_data w data True = Inr d"
    by (simp add: prepare_data_def strip_notes_def fillna_def astype_str_dates_def)
qed

theorem prepare_data_null_geometry_raises_witness:
  "(\<exists>e. prepare_data sample_wkb
          \<lparr>columns = [''id'', ''geometry''],
           rows = [[Num 1, Geometry [(''x'', 3), (''y'', 4)]], [Num 2, NA PyNone]]\<rparr> True
        = Inl e) \<and>
   prepare_data sample_wkb \<lparr>columns = [''id''], rows = [[Num 7]]\<rparr> True
     = prepare_data sample_wkb \<lparr>columns = [''id''], rows = [[Num 7]]\<rparr> False"
  using prepare_data_null_geometry_raises
          [of "[Num 2, NA PyNone]"
              "\<lparr>columns = [''id'', ''geometry''],
                rows = [[Num 1, Geometry [(''x'', 3), (''y'', 4)]], [Num 2, NA PyNone]]\<rparr>"
              PyNone sample_wkb]
        prepare_data_null_geometry_raises
          [of "[Num 7]" "\<lparr>columns = [''id''], rows = [[Num 7]]\<rparr>" PyNone sample_wkb]
  by simp

section \<open>Properties of the batch deliverer\<close>

declare add_loop.simps [simp del]

lemma chunk_size_pos: "0 < chunk_size"
  by (simp add: chunk_size_def)

lemma ceil_div_step:
  fixes c :: nat
  assumes "i < n" and "0 < c"
  shows "(n - i + (c - 1)) div c = Suc ((n - (i + c) + (c - 1)) div c)"
proof (cases "c \<le> n - i")
  case True
  then obtain k where k: "n - i = c + k"
    using le_Suc_ex by blast
  then have "n - (i + c) = k" by simp
  moreover have "(c + k + (c - 1)) div c = Suc ((k + (c - 1)) div c)"
  proof -
    have "c + k + (c - 1) = (k + (c - 1)) + c" by simp
    then show ?thesis using assms(2) by (simp only: div_add_self2)
  qed
  ultimately show ?thesis by (simp only: k)
next
  case False
  with assms have "c * 1 \<le> n - i + (c - 1)" and "n - i + (c - 1) < c * Suc 1"
    by simp_all
  then have "(n - i + (c - 1)) div c = 1"
    by (rule div_nat_eqI)
  moreover from False assms(2) have "(n - (i + c) + (c - 1)) div c = 0"
    by simp
  ultimately show ?thesis by (simp only: One_nat_def)
qed

lemma chunk_count_step:
  "i < n \<Longrightarrow>
   (n - i + (chunk_size - 1)) div chunk_size = Suc ((n - (i + chunk_size) + (chunk_size - 1)) div chunk_size)"
  by (rule ceil_div_step [OF _ chunk_size_pos])

lemma chunk_count_done:
  "\<not> i < n \<Longrightarrow> (n - i + (chunk_size - 1)) div chunk_size = 0"
  unfolding chunk_size_def by simp

lemma chunks_shift:
  "map (\<lambda>k. take c (drop (i + k * c) fs)) [0..<Suc n] =
     take c (drop i fs) # map (\<lambda>k. take c (drop (i + c + k * c) fs)) [0..<n]"
proof -
  have "[0..<Suc n] = 0 # map Suc [0..<n]"
    by (simp add: upt_conv_Cons map_Suc_upt del: upt_Suc)
  then show ?thesis
    by (simp add: add.assoc comp_def del: upt_Suc)
qed

lemma submitted_add_loop:
  "submitted (add_loop e fs i st) =
     submitted st @ map (\<lambda>k. take chunk_size (drop (i + k * chunk_size) fs))
                        [0..<(length fs - i + (chunk_size - 1)) div chunk_size]"
proof (induction e fs i st rule: add_loop.induct)
  case (1 e fs i st)
  show ?case
  proof (cases "i < length fs")
    case False
    then show ?thesis
      by (subst add_loop.simps) (simp only: if_False chunk_count_done [OF False] upt_0 list.map append_Nil2 | simp)+
  next
    case True
    show ?thesis
      apply (subst add_loop.simps)
      apply (simp only: True if_True Let_def)
      apply (subst "1.IH" [OF True refl refl])
      apply (subst chunk_count_step [OF True])
      apply (subst chunks_shift)
      apply (simp only: delivery.simps append_assoc append_Cons append_Nil)
      done
  qed
qed


lemma concat_submitted_add_loop:
  "concat (submitted (add_loop e fs i st)) = concat (submitted st) @ drop i fs"
proof (induction e fs i st rule: add_loop.induct)
  case (1 e fs i st)
  show ?case
  proof (cases "i < length fs")
    case False
    then show ?thesis
      by (subst add_loop.simps) simp
  next
    case True
    let ?chunk = "take chunk_size (drop i fs)"
    let ?st = "\<lparr>results = results st @ [e (submitted st) ?chunk],
               added = added st + length ?chunk,
               result = Some (e (submitted st) ?chunk),
               submitted = submitted st @ [?chunk]\<rparr>"
    have step: "add_loop e fs i st = add_loop e fs (i + chunk_size) ?st"
      by (subst add_loop.simps) (simp only: True if_True Let_def)
    have ih: "concat (submitted (add_loop e fs (i + chunk_size) ?st)) =
        concat (submitted ?st) @ drop (i + chunk_size) fs"
      by (rule "1.IH" [OF True refl refl])
    have "?chunk @ drop (i + chunk_size) fs = drop i fs"
      by (metis add.commute append_take_drop_id drop_drop)
    then show ?thesis
      by (simp only: step ih) simp
  qed
qed

lemma length_results_add_loop:
  "length (results (add_loop e fs i st)) =
     length (results st) + (length fs - i + (chunk_size - 1)) div chunk_size"
proof (induction e fs i st rule: add_loop.induct)
  case (1 e fs i st)
  show ?case
  proof (cases "i < length fs")
    case False
    then show ?thesis
      by (subst add_loop.simps) (simp only: if_False chunk_count_done [OF False] add_0_right)
  next
    case True
    show ?thesis
      apply (subst add_loop.simps)
      apply (simp only: True if_True Let_def)
      apply (subst "1.IH" [OF True refl refl])
      apply (subst chunk_count_step [OF True])
      apply simp
      done
  qed
qed

lemma result_add_loop:
  "result (add_loop e fs i st) =
     (if i < length fs then Some (last (results (add_loop e fs i st))) else result st)"
proof (induction e fs i st rule: add_loop.induct)
  case (1 e fs i st)
  show ?case
  proof (cases "i < length fs")
    case False
    then show ?thesis
      by (subst add_loop.simps) simp
  next
    case True
    let ?st = "\<lparr>results = results st @ [e (submitted st) (take chunk_size (drop i fs))],
               added = added st + length (take chunk_size (drop i fs)),
               result = Some (e (submitted st) (take chunk_size (drop i fs))),
               submitted = submitted st @ [take chunk_size (drop i fs)]\<rparr>"
    have step: "add_loop e fs i st = add_loop e fs (i + chunk_size) ?st"
      by (subst add_loop.simps) (simp add: True Let_def)
    have ih: "result (add_loop e fs (i + chunk_size) ?st) =
        (if i + chunk_size < length fs
         then Some (last (results (add_loop e fs (i + chunk_size) ?st))) else result ?st)"
      by (rule "1.IH" [OF True refl refl])
    show ?thesis
    proof (cases "i + chunk_size < length fs")
      case True
      with ih step \<open>i < length fs\<close> show ?thesis by simp
    next
      case False
      then have "add_loop e fs (i + chunk_size) ?st = ?st"
        by (subst add_loop.simps) simp
      with step \<open>i < length fs\<close> show ?thesis by simp
    qed
  qed
qed


lemma ceiling_div_chunk: "nat \<lceil>real n / real chunk_size\<rceil> = (n + (chunk_size - 1)) div chunk_size"
proof -
  have "\<lceil>real n / real chunk_size\<rceil> = \<lceil>of_int (int n) / (of_int (int chunk_size) :: real)\<rceil>"
    by simp
  also have "\<dots> = - (- int n div int chunk_size)"
    by (rule ceiling_divide_eq_div)
  also have "\<dots> = int ((n + (chunk_size - 1)) div chunk_size)"
    unfolding chunk_size_def by (simp add: zdiv_int)
  finally show ?thesis by simp
qed

lemma submitted_add_to_ago:
  "submitted (fst (add_to_ago e data)) =
     map (\<lambda>k. take chunk_size (drop (k * chunk_size) (map (to_feature (columns data)) (rows data))))
       [0..<(length (rows data) + (chunk_size - 1)) div chunk_size]"
  by (simp add: add_to_ago_def Let_def submitted_add_loop)

text \<open>
  \<^bold>\<open>C6.\<close> For a delivery set of \<open>N\<close> records, \<^verbatim>\<open>add_to_ago\<close> submits \<open>\<lceil>N / 100\<rceil>\<close> chunks;
  the chunks, one after the other, are the records in their order, each once; and
  record \<open>i\<close> is in chunk \<open>i div 100\<close> (at place \<open>i mod 100\<close>). This holds whatever the
  layer answers.
\<close>

theorem add_to_ago_chunking:
  "(let features_to_add = map (to_feature (columns data)) (rows data);
        chunks = submitted (fst (add_to_ago edit_features data))
    in length chunks = nat \<lceil>real (length (rows data)) / real chunk_size\<rceil> \<and>
       concat chunks = features_to_add \<and>
       (\<forall>i < length (rows data).
          i div chunk_size < length chunks \<and>
          i mod chunk_size < length (chunks ! (i div chunk_size)) \<and>
          chunks ! (i div chunk_size) ! (i mod chunk_size) = features_to_add ! i))"
proof -
  let ?fs = "map (to_feature (columns data)) (rows data)"
  let ?n = "(length (rows data) + (chunk_size - 1)) div chunk_size"
  let ?chunks = "submitted (fst (add_to_ago edit_features data))"
  have chunks: "?chunks = map (\<lambda>k. take chunk_size (drop (k * chunk_size) ?fs)) [0..<?n]"
    by (rule submitted_add_to_ago)
  have len: "length ?chunks = nat \<lceil>real (length (rows data)) / real chunk_size\<rceil>"
    by (simp add: chunks ceiling_div_chunk)
  have cat: "concat ?chunks = ?fs"
    using concat_submitted_add_loop [of edit_features ?fs 0]
    by (simp add: add_to_ago_def Let_def)
  have nth: "i div chunk_size < length ?chunks \<and>
        i mod chunk_size < length (?chunks ! (i div chunk_size)) \<and>
        ?chunks ! (i div chunk_size) ! (i mod chunk_size) = ?fs ! i"
    if i: "i < length (rows data)" for i
  proof -
    have pos: "0 < chunk_size" by (rule chunk_size_pos)
    have "i div chunk_size \<le> (length (rows data) - 1) div chunk_size"
      using i by (intro div_le_mono) simp
    also have "\<dots> < ?n"
    proof -
      from i have "length (rows data) + (chunk_size - 1) = (length (rows data) - 1) + chunk_size"
        using pos by simp
      then show ?thesis using pos by (simp only: div_add_self2)
    qed
    finally have k: "i div chunk_size < ?n" .
    have whole: "i div chunk_size * chunk_size + i mod chunk_size = i"
      by simp
    have inner: "i mod chunk_size < length (take chunk_size (drop (i div chunk_size * chunk_size) ?fs))"
    proof -
      have "i mod chunk_size < chunk_size" using pos by simp
      moreover have "i mod chunk_size < length ?fs - i div chunk_size * chunk_size"
        using i whole by (simp add: less_diff_conv) 
      ultimately show ?thesis by simp
    qed
    have sel: "?chunks ! (i div chunk_size) = take chunk_size (drop (i div chunk_size * chunk_size) ?fs)"
      using k by (simp add: chunks)
    have "take chunk_size (drop (i div chunk_size * chunk_size) ?fs) ! (i mod chunk_size) =
        drop (i div chunk_size * chunk_size) ?fs ! (i mod chunk_size)"
      using pos by (intro nth_take) simp
    also have "\<dots> = ?fs ! (i div chunk_size * chunk_size + i mod chunk_size)"
    proof (rule nth_drop)
      have "i div chunk_size * chunk_size \<le> i"
        by (metis whole le_add1)
      also from i have "i \<le> length ?fs" by simp
      finally show "i div chunk_size * chunk_size \<le> length ?fs" .
    qed
    also have "\<dots> = ?fs ! i"
      by (simp only: whole)
    finally have "take chunk_size (drop (i div chunk_size * chunk_size) ?fs) ! (i mod chunk_size) = ?fs ! i" .
    with k inner sel show ?thesis by (simp add: chunks)
  qed
  from len cat nth show ?thesis by (simp only: Let_def) blast
qed


theorem add_to_ago_chunking_witness:
  "(100::nat) < length (rows (numbered_rows 101)) \<and>
   length (submitted (fst (add_to_ago count_layer (numbered_rows 101)))) = 2 \<and>
   submitted (fst (add_to_ago count_layer (numbered_rows 101))) ! 1 ! 0 = [(''id'', Num 100)]"
proof -
  have n: "length (rows (numbered_rows 101)) = 101" and c: "columns (numbered_rows 101) = [''id'']"
    by (simp_all add: numbered_rows_def)
  have r: "rows (numbered_rows 101) ! 100 = [Num 100]"
    by (simp add: numbered_rows_def)
  have "nat \<lceil>real 101 / real chunk_size\<rceil> = 2"
    by (simp add: ceiling_div_chunk) (simp add: chunk_size_def)
  moreover note t = add_to_ago_chunking [of "numbered_rows 101" count_layer, unfolded Let_def]
  moreover have "100 < length (rows (numbered_rows 101))"
    by (simp add: n)
  moreover from this t
  have "submitted (fst (add_to_ago count_layer (numbered_rows 101)))
          ! (100 div chunk_size) ! (100 mod chunk_size)
        = map (to_feature (columns (numbered_rows 101))) (rows (numbered_rows 101)) ! 100"
    by blast
  ultimately show ?thesis
    using n c r by (simp add: to_feature_def chunk_size_def)
qed

text \<open>
  What \<^verbatim>\<open>add_to_ago\<close> returns, for every delivery set: the list \<^verbatim>\<open>results\<close> has one
  answer for each submitted chunk, and the function returns the last of them (the
  variable \<^verbatim>\<open>result\<close>); with no record at all, \<^verbatim>\<open>result\<close> is unbound at the
  \<^verbatim>\<open>return\<close>.
\<close>

theorem add_to_ago_result:
  "snd (add_to_ago edit_features data) =
     (if rows data = [] then Inl UnboundLocalError
      else Inr (last (results (fst (add_to_ago edit_features data))))) \<and>
   length (results (fst (add_to_ago edit_features data))) =
     length (submitted (fst (add_to_ago edit_features data)))"
proof -
  let ?fs = "map (to_feature (columns data)) (rows data)"
  let ?st = "add_loop edit_features ?fs 0 \<lparr>results = [], added = 0, result = None, submitted = []\<rparr>"
  have "result ?st = (if rows data = [] then None else Some (last (results ?st)))"
    by (simp add: result_add_loop)
  moreover have "length (results ?st) = length (submitted ?st)"
    by (simp add: length_results_add_loop submitted_add_loop)
  ultimately show ?thesis
    by (simp add: add_to_ago_def Let_def)
qed

text \<open>
  \<^bold>\<open>C5.\<close> The claim is that \<^verbatim>\<open>add_to_ago\<close> returns the sequence of results, one for
  each chunk. The code collects that sequence in \<^verbatim>\<open>results\<close> and then returns
  \<^verbatim>\<open>result\<close>: for 101 records and a layer that answers with the number of records it
  was given, \<^verbatim>\<open>results\<close> is \<open>[100, 1]\<close> and the value returned is \<open>1\<close>.
\<close>

theorem add_to_ago_returns_last_chunk_only:
  "results (fst (add_to_ago count_layer (numbered_rows 101))) = [100, 1] \<and>
   snd (add_to_ago count_layer (numbered_rows 101)) = Inr 1"
  by code_simp

section \<open>Properties of the differ\<close>

lemma starts_with2 [simp]:
  "starts_with [p, q] (a # b # s) \<longleftrightarrow> a = p \<and> b = q"
  "starts_with [p, q] [a] \<longleftrightarrow> False"
  "starts_with [p, q] [] \<longleftrightarrow> False"
  by (auto simp: starts_with_def)

lemma contains2_snoc2:
  assumes "q \<noteq> u"
  shows "contains [p, q] (s @ [u, v]) \<longleftrightarrow> contains [p, q] s \<or> (u = p \<and> v = q)"
proof (induction s)
  case Nil
  from assms show ?case by auto
next
  case (Cons a s)
  then show ?case using assms by (cases s) auto
qed

lemma contains_y_suffix_x: "contains ''_y'' (c @ ''_x'') \<longleftrightarrow> contains ''_y'' c"
  using contains2_snoc2 [of "CHR ''y''" "CHR ''_''" "CHR ''_''" c "CHR ''x''"] by simp

lemma contains_y_suffix_y: "contains ''_y'' (c @ ''_y'')"
  using contains2_snoc2 [of "CHR ''y''" "CHR ''_''" "CHR ''_''" c "CHR ''y''"] by simp

lemma remove_x_suffix: "remove_x (s @ ''_x'') = remove_x s"
  by (induction s rule: remove_x.induct) simp_all

lemma remove_x_clean: "\<not> contains ''_x'' s \<Longrightarrow> remove_x s = s"
  by (induction s rule: remove_x.induct) auto



lemma suffix_x_neq_suffix_y: "c @ ''_x'' \<noteq> d @ ''_y''"
proof
  assume "c @ ''_x'' = d @ ''_y''"
  then have "last (c @ ''_x'') = last (d @ ''_y'')" by simp
  then show False by simp
qed

lemma suffix_neq_merge: "c @ ''_x'' \<noteq> ''_merge''" "c @ ''_y'' \<noteq> ''_merge''"
proof -
  show "c @ ''_x'' \<noteq> ''_merge''"
  proof
    assume "c @ ''_x'' = ''_merge''"
    then have "last (c @ ''_x'') = last ''_merge''" by simp
    then show False by simp
  qed
  show "c @ ''_y'' \<noteq> ''_merge''"
  proof
    assume "c @ ''_y'' = ''_merge''"
    then have "last (c @ ''_y'') = last ''_merge''" by simp
    then show False by simp
  qed
qed

lemma pick_append:
  "length cs = length xs \<Longrightarrow> pick P (cs @ ds) (xs @ ys) = pick P cs xs @ pick P ds ys"
  by (simp add: pick_def)

lemma pick_all: "\<forall>c\<in>set cs. P c \<Longrightarrow> length cs = length xs \<Longrightarrow> pick P cs xs = xs"
proof -
  assume a: "\<forall>c\<in>set cs. P c" and l: "length cs = length xs"
  have "filter (\<lambda>(col, v). P col) (zip cs xs) = zip cs xs"
    using a by (auto simp: filter_id_conv dest: set_zip_leftD)
  with l show ?thesis by (simp add: pick_def)
qed

lemma pick_none: "\<forall>c\<in>set cs. \<not> P c \<Longrightarrow> pick P cs xs = []"
  by (auto simp: pick_def filter_empty_conv dest: set_zip_leftD)

lemma length_pick: "length xs = length cs \<Longrightarrow> length (pick P cs xs) = length (filter P cs)"
proof (induction cs arbitrary: xs)
  case Nil
  then show ?case by (simp add: pick_def)
next
  case (Cons c cs)
  then show ?case by (cases xs) (auto simp: pick_def)
qed

lemma pick_replicate:
  "pick P cs (replicate (length cs) v) = replicate (length (filter P cs)) v"
  by (induction cs) (auto simp: pick_def)

lemma pick_Cons:
  "pick R (c # cs) (v # vs) = (if R c then v # pick R cs vs else pick R cs vs)"
  by (simp add: pick_def)

lemma pick_eq_distinct:
  "distinct cs \<Longrightarrow> concat (map (\<lambda>l. pick (\<lambda>col. col = l) cs xs) (filter P cs)) = pick P cs xs"
proof (induction cs arbitrary: xs)
  case Nil
  then show ?case by (simp add: pick_def)
next
  case (Cons c cs)
  show ?case
  proof (cases xs)
    case Nil
    then show ?thesis by (simp add: pick_def)
  next
    case (Cons v vs)
    from Cons.prems have notin: "c \<notin> set cs" and d: "distinct cs" by simp_all
    have tail: "map (\<lambda>l. pick (\<lambda>col. col = l) (c # cs) (v # vs)) (filter P cs) =
        map (\<lambda>l. pick (\<lambda>col. col = l) cs vs) (filter P cs)"
    proof (rule map_cong [OF refl])
      fix l assume "l \<in> set (filter P cs)"
      with notin have "c \<noteq> l" by auto
      then show "pick (\<lambda>col. col = l) (c # cs) (v # vs) = pick (\<lambda>col. col = l) cs vs"
        by (simp add: pick_Cons)
    qed
    have "pick (\<lambda>col. col = c) cs vs = []"
      using notin by (intro pick_none) auto
    then have self: "pick (\<lambda>col. col = c) (c # cs) (v # vs) = [v]"
      by (simp add: pick_Cons)
    have ih: "concat (map (\<lambda>l. pick (\<lambda>col. col = l) cs vs) (filter P cs)) = pick P cs vs"
      by (rule Cons.IH [OF d])
    show ?thesis
    proof (cases "P c")
      case True
      then have "concat (map (\<lambda>l. pick (\<lambda>col. col = l) (c # cs) (v # vs)) (filter P (c # cs))) =
          pick (\<lambda>col. col = c) (c # cs) (v # vs) @
          concat (map (\<lambda>l. pick (\<lambda>col. col = l) (c # cs) (v # vs)) (filter P cs))"
        by simp
      also have "\<dots> = v # pick P cs vs"
        by (simp only: self tail ih) simp
      finally show ?thesis using True by (simp add: Cons pick_Cons)
    next
      case False
      then have "concat (map (\<lambda>l. pick (\<lambda>col. col = l) (c # cs) (v # vs)) (filter P (c # cs))) =
          concat (map (\<lambda>l. pick (\<lambda>col. col = l) (c # cs) (v # vs)) (filter P cs))"
        by simp
      also have "\<dots> = pick P cs vs"
        by (simp only: tail ih)
      finally show ?thesis using False by (simp add: Cons pick_Cons)
    qed
  qed
qed

lemma filter_eq_distinct:
  "distinct cs \<Longrightarrow> concat (map (\<lambda>l. filter (\<lambda>col. col = l) cs) (filter P cs)) = filter P cs"
proof (induction cs)
  case Nil
  then show ?case by simp
next
  case (Cons c cs)
  then have notin: "c \<notin> set cs" and d: "distinct cs" by simp_all
  have tail: "map (\<lambda>l. filter (\<lambda>col. col = l) (c # cs)) (filter P cs) =
      map (\<lambda>l. filter (\<lambda>col. col = l) cs) (filter P cs)"
  proof (rule map_cong [OF refl])
    fix l assume "l \<in> set (filter P cs)"
    with notin have "c \<noteq> l" by auto
    then show "filter (\<lambda>col. col = l) (c # cs) = filter (\<lambda>col. col = l) cs" by simp
  qed
  have self: "filter (\<lambda>col. col = c) cs = []"
    using notin by (auto simp: filter_empty_conv)
  have ih: "concat (map (\<lambda>l. filter (\<lambda>col. col = l) cs) (filter P cs)) = filter P cs"
    by (rule Cons.IH [OF d])
  show ?case
  proof (cases "P c")
    case True
    then have "concat (map (\<lambda>l. filter (\<lambda>col. col = l) (c # cs)) (filter P (c # cs))) =
        filter (\<lambda>col. col = c) (c # cs) @
        concat (map (\<lambda>l. filter (\<lambda>col. col = l) (c # cs)) (filter P cs))"
      by simp
    also have "\<dots> = c # filter P cs"
      by (simp only: tail ih) (simp add: self)
    finally show ?thesis using True by simp
  next
    case False
    then have "concat (map (\<lambda>l. filter (\<lambda>col. col = l) (c # cs)) (filter P (c # cs))) =
        concat (map (\<lambda>l. filter (\<lambda>col. col = l) (c # cs)) (filter P cs))"
      by simp
    also have "\<dots> = filter P cs"
      by (simp only: tail ih)
    finally show ?thesis using False by simp
  qed
qed

lemma getitem_filter:
  assumes "distinct (columns df)"
  shows "getitem (filter P (columns df)) df =
     Inr \<lparr>columns = filter P (columns df), rows = map (pick P (columns df)) (rows df)\<rparr>"
  using assms by (simp add: getitem_def pick_eq_distinct filter_eq_distinct)

lemma map_of_zip_snoc:
  assumes "k \<notin> set cs" and "length cs = length xs"
  shows "map_of (zip (cs @ [k]) (xs @ [v])) k = Some v"
proof -
  have none: "map_of (zip cs xs) k = None"
    using assms by (simp add: map_of_zip_is_None)
  have "map_of (zip (cs @ [k]) (xs @ [v])) k = (map_of [(k, v)] ++ map_of (zip cs xs)) k"
    using assms(2) by simp
  also have "\<dots> = Some v"
    using none by (simp add: map_add_def)
  finally show ?thesis .
qed

lemma concat_map_if:
  "concat (map (\<lambda>x. if P x then [g x] else []) xs) = map g (filter P xs)"
  by (induction xs) auto

lemma wf_frame_row: "wf_frame df \<Longrightarrow> r \<in> set (rows df) \<Longrightarrow> length r = length (columns df)"
  by (simp add: wf_frame_def list_all_iff)

lemma pd_merge_InrD:
  assumes "pd_merge left right on = Inr m"
  shows "on \<noteq> []"
    and "set on \<subseteq> set (columns left)"
    and "set on \<subseteq> set (columns right)"
    and "''_merge'' \<notin> set (columns left)"
    and "''_merge'' \<notin> set (columns right)"
    and "distinct (llabels left right on)"
    and "distinct (rlabels left right on)"
    and "m = \<lparr>columns = llabels left right on @ rlabels left right on @ [''_merge''],
              rows = concat (map (left_rows on left right) (rows left))
                     @ right_only_rows on left right\<rparr>"
  using assms by (auto simp: pd_merge_def indicator_names_def split: if_splits)

lemma length_llabels [simp]: "length (llabels left right on) = length (columns left)"
  by (simp add: llabels_def)

lemma length_rlabels:
  "length (rlabels left right on) = length (filter (\<lambda>col. col \<notin> set on) (columns right))"
  by (simp add: rlabels_def)

lemma merge_not_label:
  assumes "''_merge'' \<notin> set (columns left)" and "''_merge'' \<notin> set (columns right)"
  shows "''_merge'' \<notin> set (llabels left right on @ rlabels left right on)"
proof
  assume "''_merge'' \<in> set (llabels left right on @ rlabels left right on)"
  then consider c where "c \<in> set (columns left)" "''_merge'' = (if overlap left right on c then c @ ''_x'' else c)"
    | c where "c \<in> set (columns right)" "''_merge'' = (if overlap left right on c then c @ ''_y'' else c)"
    by (auto simp: llabels_def rlabels_def)
  then show False
  proof cases
    case 1
    with assms(1) suffix_neq_merge(1) [of c] show False
      by (auto split: if_splits)
  next
    case 2
    with assms(2) suffix_neq_merge(2) [of c] show False
      by (auto split: if_splits)
  qed
qed

lemma indicator_of_row:
  assumes "''_merge'' \<notin> set labels" and "length cells = length labels"
  shows "map_of (zip (labels @ [''_merge'']) (cells @ [ind])) ''_merge'' = Some ind"
    and "pick (\<lambda>col. col \<noteq> ''_merge'') (labels @ [''_merge'']) (cells @ [ind]) = cells"
proof -
  show "map_of (zip (labels @ [''_merge'']) (cells @ [ind])) ''_merge'' = Some ind"
    using assms by (intro map_of_zip_snoc) simp_all
  have "pick (\<lambda>col. col \<noteq> ''_merge'') (labels @ [''_merge'']) (cells @ [ind]) =
      pick (\<lambda>col. col \<noteq> ''_merge'') labels cells @ pick (\<lambda>col. col \<noteq> ''_merge'') [''_merge''] [ind]"
    using assms(2) by (intro pick_append) simp
  also have "pick (\<lambda>col. col \<noteq> ''_merge'') labels cells = cells"
    using assms by (intro pick_all) auto
  also have "pick (\<lambda>col. col \<noteq> ''_merge'') [''_merge''] [ind] = []"
    by (simp add: pick_def)
  finally show "pick (\<lambda>col. col \<noteq> ''_merge'') (labels @ [''_merge'']) (cells @ [ind]) = cells"
    by simp
qed

lemma select_left_only_merge:
  assumes m: "pd_merge left right on = Inr m"
    and wl: "wf_frame left" and wr: "wf_frame right"
  shows "select_left_only m =
     Inr \<lparr>columns = llabels left right on @ rlabels left right on,
          rows = map (\<lambda>lr. lr @ replicate (length (rlabels left right on)) (NA NaN))
                   (filter (unmatched on left right) (rows left))\<rparr>"
proof -
  let ?LL = "llabels left right on" and ?RL = "rlabels left right on"
  let ?labels = "?LL @ ?RL"
  let ?nans = "replicate (length ?RL) (NA NaN)"
  let ?Q = "\<lambda>r. map_of (zip (?labels @ [''_merge'']) r) ''_merge'' = Some (Str ''left_only'')"
  note d = pd_merge_InrD [OF m]
  have nm: "''_merge'' \<notin> set ?labels"
    by (rule merge_not_label [OF d(4) d(5)])
  have cols: "columns m = ?labels @ [''_merge'']" and
    rws: "rows m = concat (map (left_rows on left right) (rows left)) @ right_only_rows on left right"
    by (simp_all add: d(8))
  have nans: "pick (\<lambda>col. col \<notin> set on) (columns right) (replicate (length (columns right)) (NA NaN)) = ?nans"
    by (simp add: pick_replicate length_rlabels)
  have left: "filter ?Q (left_rows on left right lr) =
      (if unmatched on left right lr then [(lr @ ?nans) @ [Str ''left_only'']] else [])"
    if lr: "lr \<in> set (rows left)" for lr
  proof -
    have len: "length lr = length (columns left)"
      by (rule wf_frame_row [OF wl lr])
    let ?partners = "filter (\<lambda>rr. key_tuple on (columns right) rr = key_tuple on (columns left) lr) (rows right)"
    have un: "unmatched on left right lr \<longleftrightarrow> ?partners = []"
      by (simp add: unmatched_def filter_empty_conv image_iff) metis
    show ?thesis
    proof (cases "?partners = []")
      case True
      have "?Q ((lr @ ?nans) @ [Str ''left_only''])"
        using nm len by (intro indicator_of_row(1)) simp_all
      with True un show ?thesis
        by (simp add: left_rows_def nans)
    next
      case False
      have "\<not> ?Q r" if "r \<in> set (map (\<lambda>rr. lr @ pick (\<lambda>col. col \<notin> set on) (columns right) rr @ [Str ''both'']) ?partners)" for r
      proof -
        from that obtain rr where rr: "rr \<in> set (rows right)"
          and r: "r = (lr @ pick (\<lambda>col. col \<notin> set on) (columns right) rr) @ [Str ''both'']"
          by auto
        have "length rr = length (columns right)"
          by (rule wf_frame_row [OF wr rr])
        then have "length (lr @ pick (\<lambda>col. col \<notin> set on) (columns right) rr) = length ?labels"
          using len by (simp add: length_pick length_rlabels)
        with nm have "map_of (zip (?labels @ [''_merge'']) r) ''_merge'' = Some (Str ''both'')"
          unfolding r by (intro indicator_of_row(1))
        then show ?thesis by simp
      qed
      then have "filter ?Q (map (\<lambda>rr. lr @ pick (\<lambda>col. col \<notin> set on) (columns right) rr @ [Str ''both'']) ?partners) = []"
        by (simp only: filter_empty_conv) blast
      with False un show ?thesis
        by (simp add: left_rows_def)
    qed
  qed
  have right: "filter ?Q (right_only_rows on left right) = []"
  proof -
    have "\<not> ?Q r" if "r \<in> set (right_only_rows on left right)" for r
    proof -
      from that obtain rr where rr: "rr \<in> set (rows right)"
        and r: "r = (map (\<lambda>col. if col \<in> set on
                           then (case map_of (zip (columns right) rr) col of
                                   None \<Rightarrow> NA NaN | Some v \<Rightarrow> v)
                           else NA NaN) (columns left)
               @ pick (\<lambda>col. col \<notin> set on) (columns right) rr) @ [Str ''right_only'']"
        by (auto simp: right_only_rows_def)
      have "length rr = length (columns right)"
        by (rule wf_frame_row [OF wr rr])
      then have "length (map (\<lambda>col. if col \<in> set on
                           then (case map_of (zip (columns right) rr) col of
                                   None \<Rightarrow> NA NaN | Some v \<Rightarrow> v)
                           else NA NaN) (columns left)
               @ pick (\<lambda>col. col \<notin> set on) (columns right) rr) = length ?labels"
        by (simp add: length_pick length_rlabels)
      with nm have "map_of (zip (?labels @ [''_merge'']) r) ''_merge'' = Some (Str ''right_only'')"
        unfolding r by (intro indicator_of_row(1))
      then show ?thesis by simp
    qed
    then show ?thesis by (simp only: filter_empty_conv) blast
  qed
  have "filter ?Q (rows m) =
      concat (map (\<lambda>lr. filter ?Q (left_rows on left right lr)) (rows left))"
    by (simp add: rws right filter_concat comp_def del: append_assoc)
  also have "\<dots> = concat (map (\<lambda>lr. if unmatched on left right lr
                                      then [(lr @ ?nans) @ [Str ''left_only'']] else []) (rows left))"
    by (intro arg_cong [where f = concat] map_cong refl left)
  also have "\<dots> = map (\<lambda>lr. (lr @ ?nans) @ [Str ''left_only'']) (filter (unmatched on left right) (rows left))"
    by (rule concat_map_if)
  finally have sel: "filter ?Q (rows m) =
      map (\<lambda>lr. (lr @ ?nans) @ [Str ''left_only'']) (filter (unmatched on left right) (rows left))" .
  have strip: "pick (\<lambda>col. col \<noteq> ''_merge'') (?labels @ [''_merge'']) ((lr @ ?nans) @ [Str ''left_only'']) = lr @ ?nans"
    if "lr \<in> set (rows left)" for lr
  proof -
    have "length lr = length (columns left)"
      by (rule wf_frame_row [OF wl that])
    then have "length (lr @ ?nans) = length ?labels" by simp
    with nm show ?thesis by (intro indicator_of_row(2))
  qed
  have "map (pick (\<lambda>col. col \<noteq> ''_merge'') (?labels @ [''_merge''])) (filter ?Q (rows m)) =
      map (\<lambda>lr. lr @ ?nans) (filter (unmatched on left right) (rows left))"
    unfolding sel map_map comp_def by (intro map_cong refl strip) auto
  moreover have "filter (\<lambda>col. col \<noteq> ''_merge'') (?labels @ [''_merge'']) = ?labels"
  proof -
    have "filter (\<lambda>col. col \<noteq> ''_merge'') ?labels = ?labels"
      unfolding filter_id_conv using nm by blast
    then show ?thesis by (simp del: append_assoc)
  qed
  ultimately show ?thesis
    unfolding select_left_only_def cols by (simp del: append_assoc)
qed

lemma getitem_prefix:
  assumes d: "distinct (cs @ xs)" and len: "list_all (\<lambda>r. length r = length cs + n) rws"
  shows "getitem cs \<lparr>columns = cs @ xs, rows = rws\<rparr> =
     Inr \<lparr>columns = cs, rows = map (take (length cs)) rws\<rparr>"
proof -
  have ft: "filter (\<lambda>_. True) cs = cs" by simp
  have fil: "filter (\<lambda>col. col = l) (cs @ xs) = filter (\<lambda>col. col = l) cs" if "l \<in> set cs" for l
  proof -
    from d that have "l \<notin> set xs" by auto
    then have "filter (\<lambda>col. col = l) xs = []" by (auto simp: filter_empty_conv)
    then show ?thesis by simp
  qed
  have "map (\<lambda>l. filter (\<lambda>col. col = l) (cs @ xs)) cs = map (\<lambda>l. filter (\<lambda>col. col = l) cs) cs"
    by (rule map_cong [OF refl]) (rule fil)
  then have "concat (map (\<lambda>l. filter (\<lambda>col. col = l) (cs @ xs)) cs) =
      concat (map (\<lambda>l. filter (\<lambda>col. col = l) cs) (filter (\<lambda>_. True) cs))"
    by (simp only: ft)
  also have "\<dots> = cs"
    using d by (simp only: filter_eq_distinct distinct_append) simp
  finally have c: "concat (map (\<lambda>l. filter (\<lambda>col. col = l) (cs @ xs)) cs) = cs" .
  have r: "concat (map (\<lambda>l. pick (\<lambda>col. col = l) (cs @ xs) r) cs) = take (length cs) r"
    if "r \<in> set rws" for r
  proof -
    from len that have lr: "length r = length cs + n" by (simp add: list_all_iff)
    define a b where "a = take (length cs) r" and "b = drop (length cs) r"
    then have r: "r = a @ b" and la: "length a = length cs" using lr by simp_all
    have pk: "pick (\<lambda>col. col = l) (cs @ xs) (a @ b) = pick (\<lambda>col. col = l) cs a" if "l \<in> set cs" for l
    proof -
      from d that have "l \<notin> set xs" by auto
      then have "pick (\<lambda>col. col = l) xs b = []" by (intro pick_none) auto
      with la show ?thesis by (simp add: pick_append)
    qed
    have "map (\<lambda>l. pick (\<lambda>col. col = l) (cs @ xs) (a @ b)) cs = map (\<lambda>l. pick (\<lambda>col. col = l) cs a) cs"
      by (rule map_cong [OF refl]) (rule pk)
    then have "concat (map (\<lambda>l. pick (\<lambda>col. col = l) (cs @ xs) (a @ b)) cs) =
        concat (map (\<lambda>l. pick (\<lambda>col. col = l) cs a) (filter (\<lambda>_. True) cs))"
      by (simp only: ft)
    also have "\<dots> = pick (\<lambda>_. True) cs a"
      using d by (simp only: pick_eq_distinct distinct_append)
    also have "\<dots> = a"
      using la by (intro pick_all) simp_all
    finally show ?thesis by (simp add: r la)
  qed
  have rs: "map (\<lambda>r. concat (map (\<lambda>l. pick (\<lambda>col. col = l) (cs @ xs) r) cs)) rws = map (take (length cs)) rws"
    by (rule map_cong [OF refl]) (rule r)
  have "set cs \<subseteq> set (cs @ xs)" by simp
  then show ?thesis
    unfolding getitem_def by (simp only: dataframe.simps c rs) simp
qed

lemma records_to_add_clean:
  assumes m: "pd_merge db ago on = Inr m"
    and wl: "wf_frame db" and wr: "wf_frame ago"
    and cl: "\<forall>col \<in> set (columns db) \<union> set (columns ago). clean col"
  defines "kept \<equiv> filter (unmatched on db ago) (rows db)"
  defines "extra \<equiv> right_extra db ago on"
  shows "drop_y \<lparr>columns = llabels db ago on @ rlabels db ago on,
                 rows = map (\<lambda>lr. lr @ replicate (length (rlabels db ago on)) (NA NaN)) kept\<rparr>
         = Inr \<lparr>columns = llabels db ago on @ extra,
                rows = map (\<lambda>lr. lr @ replicate (length extra) (NA NaN)) kept\<rparr>"
    and "rename_x \<lparr>columns = llabels db ago on @ extra,
                    rows = map (\<lambda>lr. lr @ replicate (length extra) (NA NaN)) kept\<rparr>
         = \<lparr>columns = columns db @ extra,
            rows = map (\<lambda>lr. lr @ replicate (length extra) (NA NaN)) kept\<rparr>"
    and "getitem (columns db)
           \<lparr>columns = columns db @ extra,
            rows = map (\<lambda>lr. lr @ replicate (length extra) (NA NaN)) kept\<rparr>
         = Inr \<lparr>columns = columns db, rows = kept\<rparr>"
    and "records_to_add ago db on = Inr \<lparr>columns = columns db, rows = kept\<rparr>"
proof -
  let ?L = "columns db" and ?R = "columns ago"
  let ?LL = "llabels db ago on" and ?RL = "rlabels db ago on"
  let ?rcols = "filter (\<lambda>col. col \<notin> set on) ?R"
  let ?P = "\<lambda>col. \<not> contains ''_y'' col"
  let ?f = "\<lambda>col. if overlap db ago on col then col @ ''_y'' else col"
  let ?g = "\<lambda>col. if overlap db ago on col then col @ ''_x'' else col"
  note d = pd_merge_InrD [OF m]
  have cleanL: "clean c" if "c \<in> set ?L" for c using cl that by blast
  have cleanR: "clean c" if "c \<in> set ?R" for c using cl that by blast
  have PLL: "?P l" if "l \<in> set ?LL" for l
  proof -
    from that obtain c where c: "c \<in> set ?L" and l: "l = ?g c"
      by (auto simp: llabels_def)
    from cleanL [OF c] have "\<not> contains ''_y'' c" by (simp add: clean_def)
    then show ?thesis by (simp add: l contains_y_suffix_x)
  qed
  have ov: "overlap db ago on c \<longleftrightarrow> c \<in> set ?L" if "c \<in> set ?rcols" for c
    using that by (auto simp: overlap_def)
  have "filter ?P ?RL = map ?f (filter (\<lambda>c. ?P (?f c)) ?rcols)"
    by (simp add: rlabels_def filter_map comp_def)
  also have "filter (\<lambda>c. ?P (?f c)) ?rcols = filter (\<lambda>c. c \<notin> set ?L) ?rcols"
  proof (rule filter_cong [OF refl])
    fix c assume c: "c \<in> set ?rcols"
    then have "clean c" using cleanR by simp
    then show "?P (?f c) \<longleftrightarrow> c \<notin> set ?L"
      using ov [OF c] by (simp add: clean_def contains_y_suffix_y)
  qed
  also have "map ?f (filter (\<lambda>c. c \<notin> set ?L) ?rcols) = filter (\<lambda>c. c \<notin> set ?L) ?rcols"
    by (rule map_idI) (auto simp: overlap_def)
  finally have PRL: "filter ?P ?RL = extra"
    by (simp add: extra_def right_extra_def)
  have filt: "filter ?P (?LL @ ?RL) = ?LL @ extra"
  proof -
    have "filter ?P ?LL = ?LL"
      unfolding filter_id_conv using PLL by blast
    with PRL show ?thesis by simp
  qed
  have dis: "distinct (?LL @ ?RL)"
  proof -
    have "l \<notin> set ?RL" if "l \<in> set ?LL" for l
    proof
      assume "l \<in> set ?RL"
      then obtain e where e: "e \<in> set ?rcols" and le: "l = ?f e"
        by (auto simp: rlabels_def)
      from that obtain c where c: "c \<in> set ?L" and lc: "l = ?g c"
        by (auto simp: llabels_def)
      from e have eR: "e \<in> set ?R" and eK: "e \<notin> set on" by simp_all
      have ce: "clean e" by (rule cleanR [OF eR])
      have cc: "clean c" by (rule cleanL [OF c])
      show False
      proof (cases "overlap db ago on c")
        case True
        note oc = this
        show False
        proof (cases "overlap db ago on e")
          case True
          with oc lc le show False by (simp add: suffix_x_neq_suffix_y)
        next
          case False
          with oc lc le have "e = c @ ''_x''" by simp
          moreover have "contains ''_x'' (c @ ''_x'')"
            using contains2_snoc2 [of "CHR ''x''" "CHR ''_''" "CHR ''_''" c "CHR ''x''"] by simp
          ultimately show False using ce by (simp add: clean_def)
        qed
      next
        case False
        note oc = this
        show False
        proof (cases "overlap db ago on e")
          case True
          with oc lc le have "c = e @ ''_y''" by simp
          with cc contains_y_suffix_y [of e] show False by (simp add: clean_def)
        next
          case False
          with oc lc le have "c = e" by simp
          with c eR eK False show False by (simp add: overlap_def)
        qed
      qed
    qed
    with d(6) d(7) show ?thesis by auto
  qed
  have rowlen: "length lr = length ?L" if "lr \<in> set kept" for lr
    using that wf_frame_row [OF wl] by (simp add: kept_def)
  have pk: "pick ?P (?LL @ ?RL) (lr @ replicate (length ?RL) (NA NaN)) =
      lr @ replicate (length extra) (NA NaN)" if "lr \<in> set kept" for lr
  proof -
    have "pick ?P (?LL @ ?RL) (lr @ replicate (length ?RL) (NA NaN)) =
        pick ?P ?LL lr @ pick ?P ?RL (replicate (length ?RL) (NA NaN))"
      using rowlen [OF that] by (intro pick_append) simp
    also have "pick ?P ?LL lr = lr"
      using PLL rowlen [OF that] by (intro pick_all) simp_all
    also have "pick ?P ?RL (replicate (length ?RL) (NA NaN)) = replicate (length (filter ?P ?RL)) (NA NaN)"
      by (rule pick_replicate)
    finally show ?thesis by (simp only: PRL)
  qed
  show dropped: "drop_y \<lparr>columns = ?LL @ ?RL,
                 rows = map (\<lambda>lr. lr @ replicate (length ?RL) (NA NaN)) kept\<rparr>
         = Inr \<lparr>columns = ?LL @ extra,
                rows = map (\<lambda>lr. lr @ replicate (length extra) (NA NaN)) kept\<rparr>"
  proof -
    let ?sel = "\<lparr>columns = ?LL @ ?RL,
                 rows = map (\<lambda>lr. lr @ replicate (length ?RL) (NA NaN)) kept\<rparr>"
    have "drop_y ?sel = Inr \<lparr>columns = filter ?P (columns ?sel), rows = map (pick ?P (columns ?sel)) (rows ?sel)\<rparr>"
      unfolding drop_y_def using dis by (intro getitem_filter) simp
    moreover have "filter ?P (columns ?sel) = ?LL @ extra"
      using filt by simp
    moreover have "map (pick ?P (columns ?sel)) (rows ?sel) =
        map (\<lambda>lr. lr @ replicate (length extra) (NA NaN)) kept"
    proof -
      have "map (\<lambda>lr. pick ?P (?LL @ ?RL) (lr @ replicate (length ?RL) (NA NaN))) kept =
          map (\<lambda>lr. lr @ replicate (length extra) (NA NaN)) kept"
        by (rule map_cong [OF refl]) (rule pk)
      then show ?thesis by (simp add: comp_def)
    qed
    ultimately show ?thesis by (simp only:)
  qed
  have ren: "map remove_x (?LL @ extra) = ?L @ extra"
  proof -
    have "map remove_x ?LL = map (\<lambda>c. remove_x (?g c)) ?L"
      by (simp add: llabels_def comp_def)
    also have "\<dots> = ?L"
    proof (rule map_idI)
      fix c assume "c \<in> set ?L"
      then have "\<not> contains ''_x'' c" using cleanL by (simp add: clean_def)
      then show "remove_x (?g c) = c"
        by (simp add: remove_x_suffix remove_x_clean)
    qed
    finally have 1: "map remove_x ?LL = ?L" .
    have 2: "map remove_x extra = extra"
    proof (rule map_idI)
      fix c assume "c \<in> set extra"
      then have "c \<in> set ?R" by (simp add: extra_def right_extra_def)
      then have "\<not> contains ''_x'' c" using cleanR by (simp add: clean_def)
      then show "remove_x c = c" by (rule remove_x_clean)
    qed
    from 1 2 show ?thesis by simp
  qed
  show renamed: "rename_x \<lparr>columns = ?LL @ extra,
                    rows = map (\<lambda>lr. lr @ replicate (length extra) (NA NaN)) kept\<rparr>
         = \<lparr>columns = ?L @ extra,
            rows = map (\<lambda>lr. lr @ replicate (length extra) (NA NaN)) kept\<rparr>"
    using ren by (simp add: rename_x_def)
  have dLE: "distinct (?L @ extra)"
  proof -
    have "distinct ?L" "distinct ?R" using wl wr by (simp_all add: wf_frame_def)
    then show ?thesis by (auto simp: extra_def right_extra_def)
  qed
  have "getitem ?L \<lparr>columns = ?L @ extra,
            rows = map (\<lambda>lr. lr @ replicate (length extra) (NA NaN)) kept\<rparr>
      = Inr \<lparr>columns = ?L,
             rows = map (take (length ?L)) (map (\<lambda>lr. lr @ replicate (length extra) (NA NaN)) kept)\<rparr>"
    using dLE
  proof (rule getitem_prefix)
    show "list_all (\<lambda>r. length r = length ?L + length extra)
        (map (\<lambda>lr. lr @ replicate (length extra) (NA NaN)) kept)"
      using rowlen by (simp add: list_all_iff)
  qed
  moreover have "map (take (length ?L)) (map (\<lambda>lr. lr @ replicate (length extra) (NA NaN)) kept) = kept"
    using rowlen by (simp add: comp_def map_idI)
  ultimately show projected: "getitem ?L \<lparr>columns = ?L @ extra,
            rows = map (\<lambda>lr. lr @ replicate (length extra) (NA NaN)) kept\<rparr>
      = Inr \<lparr>columns = ?L, rows = kept\<rparr>"
    by simp
  have sel: "select_left_only m = Inr \<lparr>columns = ?LL @ ?RL,
          rows = map (\<lambda>lr. lr @ replicate (length ?RL) (NA NaN)) kept\<rparr>"
    unfolding kept_def by (rule select_left_only_merge [OF m wl wr])
  show "records_to_add ago db on = Inr \<lparr>columns = ?L, rows = kept\<rparr>"
    unfolding records_to_add_def
    by (simp only: m sel dropped renamed projected sum.case)
qed

lemma snd_add_to_ago:
  "rows data \<noteq> [] \<Longrightarrow> \<exists>res. snd (add_to_ago e data) = Inr res"
proof -
  assume ne: "rows data \<noteq> []"
  let ?fs = "map (to_feature (columns data)) (rows data)"
  let ?st = "add_loop e ?fs 0 \<lparr>results = [], added = 0, result = None, submitted = []\<rparr>"
  from ne have "result ?st = Some (last (results ?st))"
    by (simp add: result_add_loop)
  then show ?thesis
    by (simp add: add_to_ago_def Let_def)
qed

lemma sync_data_of_records:
  assumes "records_to_add ago db on = Inr to_add"
  shows "sync_data e ago db on =
     (if empty_frame to_add then Inr NoNewRecords
      else Inr (Delivered to_add (fst (add_to_ago e to_add))))"
proof (cases "empty_frame to_add")
  case True
  with assms show ?thesis by (simp add: sync_data_def)
next
  case False
  then have "rows to_add \<noteq> []" by (simp add: empty_frame_def)
  from snd_add_to_ago [OF this, of e] obtain res where "snd (add_to_ago e to_add) = Inr res" ..
  then obtain st where st: "add_to_ago e to_add = (st, Inr res)"
    by (cases "add_to_ago e to_add") simp
  from assms False show ?thesis
    by (simp add: sync_data_def st)
qed

lemma sync_data_clean:
  assumes m: "pd_merge db ago on = Inr m"
    and wl: "wf_frame db" and wr: "wf_frame ago"
    and cl: "\<forall>col \<in> set (columns db) \<union> set (columns ago). clean col"
  shows "sync_data e ago db on =
     (if filter (unmatched on db ago) (rows db) = [] then Inr NoNewRecords
      else Inr (Delivered \<lparr>columns = columns db, rows = filter (unmatched on db ago) (rows db)\<rparr>
             (fst (add_to_ago e \<lparr>columns = columns db,
                                  rows = filter (unmatched on db ago) (rows db)\<rparr>))))"
proof -
  from pd_merge_InrD(1,2) [OF m] have "columns db \<noteq> []" by auto
  then show ?thesis
    using sync_data_of_records [OF records_to_add_clean(4) [OF m wl wr cl], of e]
    by (simp add: empty_frame_def)
qed





lemmas differ_unfold =
  records_to_add_def pd_merge_def select_left_only_def drop_y_def rename_x_def getitem_def
  llabels_def rlabels_def overlap_def left_rows_def right_only_rows_def key_tuple_def
  key_cell_def pick_def indicator_names_def starts_with_def






lemma sample_frames:
  "wf_frame db_frame" "wf_frame ago_frame" "wf_frame db_duplicates" "wf_frame db_tax"
  "list_all clean (columns db_frame @ columns ago_frame)"
  "list_all clean (columns db_duplicates @ columns ago_frame)"
  by code_simp+

lemma sample_merge: "pd_merge db_frame ago_frame [''id''] = Inr merged_frame"
  by (simp add: db_frame_def ago_frame_def merged_frame_def differ_unfold)

lemma sample_unmatched:
  "filter (unmatched [''id''] db_frame ago_frame) (rows db_frame) = [[Num 2, Str ''bo'', Str ''new'']]"
  by (simp add: db_frame_def ago_frame_def unmatched_def key_tuple_def key_cell_def)

lemma clean_all: "list_all clean (columns db @ columns ago) \<Longrightarrow>
    \<forall>col \<in> set (columns db) \<union> set (columns ago). clean col"
  by (auto simp: list_all_iff)




text \<open>
  \<^bold>\<open>C1.\<close> The claim is that every run normalises both fetched collections with
  \<^verbatim>\<open>prepare_data\<close> before the join. \<^verbatim>\<open>sync_data\<close> merges the frames as they were fetched;
  \<^verbatim>\<open>prepare_data\<close> is defined in the class and called nowhere. A table record with a
  missing key and a layer record with the key \<^verbatim>\<open>''\<close> are the same record after
  normalisation, and nothing would be added; the run adds the record, markup
  included.
\<close>

theorem sync_data_skips_prepare_data:
  "sync_data count_layer
     \<lparr>columns = [''site'', ''notes''], rows = [[Str [], Str ''new'']]\<rparr>
     \<lparr>columns = [''site'', ''notes''], rows = [[NA PyNone, Str ''<b>new</b>'']]\<rparr>
     [''site''] =
     Inr (Delivered
            \<lparr>columns = [''site'', ''notes''], rows = [[NA PyNone, Str ''<b>new</b>'']]\<rparr>
            \<lparr>results = [1], added = 1, result = Some 1,
             submitted = [[[(''site'', NA PyNone), (''notes'', Str ''<b>new</b>'')]]]\<rparr>) \<and>
   prepare_data sample_wkb
     \<lparr>columns = [''site'', ''notes''], rows = [[Str [], Str ''new'']]\<rparr> False =
     Inr \<lparr>columns = [''site'', ''notes''], rows = [[Str [], Str ''new'']]\<rparr> \<and>
   prepare_data sample_wkb
     \<lparr>columns = [''site'', ''notes''], rows = [[NA PyNone, Str ''<b>new</b>'']]\<rparr> False =
     Inr \<lparr>columns = [''site'', ''notes''], rows = [[Str [], Str ''new'']]\<rparr> \<and>
   sync_data count_layer
     \<lparr>columns = [''site'', ''notes''], rows = [[Str [], Str ''new'']]\<rparr>
     \<lparr>columns = [''site'', ''notes''], rows = [[Str [], Str ''new'']]\<rparr>
     [''site''] = Inr NoNewRecords"
  by code_simp

text \<open>
  \<^bold>\<open>C2.\<close> The claim is that the rows chosen for delivery are those whose left-hand
  values are absent after the join. The merge has the table as its left frame, and
  \<^verbatim>\<open>sync_data\<close> keeps the rows marked \<^verbatim>\<open>left_only\<close>: here the record with \<^verbatim>\<open>id\<close> 2, which
  the table has and the layer has not, and whose right-hand values are the absent
  ones. The row whose left-hand values are absent (\<^verbatim>\<open>id\<close> 3, \<^verbatim>\<open>right_only\<close>) is not
  delivered.
\<close>

theorem left_only_rows_are_delivered:
  "pd_merge
     \<lparr>columns = [''id'', ''name'', ''notes''],
       rows = [[Num 1, Str ''ann'', Str ''ok''], [Num 2, Str ''bo'', Str ''new'']]\<rparr>
     \<lparr>columns = [''id'', ''name'', ''geometry''],
       rows = [[Num 1, Str ''ann'', Geometry [(''x'', 10), (''y'', 20)]],
               [Num 3, Str ''cy'', Geometry [(''x'', 11), (''y'', 21)]]]\<rparr>
     [''id''] =
     Inr \<lparr>columns = [''id'', ''name_x'', ''notes'', ''name_y'', ''geometry'', ''_merge''],
          rows = [[Num 1, Str ''ann'', Str ''ok'', Str ''ann'',
                   Geometry [(''x'', 10), (''y'', 20)], Str ''both''],
                  [Num 2, Str ''bo'', Str ''new'', NA NaN, NA NaN, Str ''left_only''],
                  [Num 3, NA NaN, NA NaN, Str ''cy'',
                   Geometry [(''x'', 11), (''y'', 21)], Str ''right_only'']]\<rparr> \<and>
   records_to_add
     \<lparr>columns = [''id'', ''name'', ''geometry''],
       rows = [[Num 1, Str ''ann'', Geometry [(''x'', 10), (''y'', 20)]],
               [Num 3, Str ''cy'', Geometry [(''x'', 11), (''y'', 21)]]]\<rparr>
     \<lparr>columns = [''id'', ''name'', ''notes''],
       rows = [[Num 1, Str ''ann'', Str ''ok''], [Num 2, Str ''bo'', Str ''new'']]\<rparr>
     [''id''] =
     Inr \<lparr>columns = [''id'', ''name'', ''notes''], rows = [[Num 2, Str ''bo'', Str ''new'']]\<rparr>"
  by (simp add: differ_unfold)

text \<open>
  \<^bold>\<open>C2, as amended.\<close> After a merge that succeeds, the rows that \<^verbatim>\<open>sync_data\<close> selects are
  the rows marked \<^verbatim>\<open>left_only\<close>: one for each record of the left frame (the table
  \<^verbatim>\<open>db_data\<close>) whose key tuple no record of the right frame (the layer \<^verbatim>\<open>ago_data\<close>)
  has, and in each of them every right-hand value is absent (\<^verbatim>\<open>NaN\<close>). When no
  column name contains \<^verbatim>\<open>_x\<close> or \<^verbatim>\<open>_y\<close>, exactly these records, on the columns of the
  table, are the delivery set handed to \<^verbatim>\<open>add_to_ago\<close> (or the run reports that there
  is nothing to add); every delivered record is a record of the table, so a record
  that only the layer has is never delivered.
\<close>

theorem delivery_is_left_only:
  assumes m: "pd_merge db ago on = Inr m" and wl: "wf_frame db" and wr: "wf_frame ago"
  shows
    "(\<exists>sel. select_left_only m = Inr sel \<and>
        mset (rows sel) =
          image_mset (\<lambda>lr. lr @ replicate (length (rlabels db ago on)) (NA NaN))
            (filter_mset (unmatched on db ago) (mset (rows db)))) \<and>
     ((\<forall>col \<in> set (columns db) \<union> set (columns ago). clean col) \<longrightarrow>
        (\<exists>to_add.
           records_to_add ago db on = Inr to_add \<and>
           columns to_add = columns db \<and>
           mset (rows to_add) = filter_mset (unmatched on db ago) (mset (rows db)) \<and>
           set (rows to_add) \<subseteq> set (rows db) \<and>
           sync_data e ago db on =
             (if rows to_add = [] then Inr NoNewRecords
              else Inr (Delivered to_add (fst (add_to_ago e to_add))))))"
proof (intro conjI impI)
  let ?kept = "filter (unmatched on db ago) (rows db)"
  have "select_left_only m =
     Inr \<lparr>columns = llabels db ago on @ rlabels db ago on,
          rows = map (\<lambda>lr. lr @ replicate (length (rlabels db ago on)) (NA NaN)) ?kept\<rparr>"
    by (rule select_left_only_merge [OF m wl wr])
  then show "\<exists>sel. select_left_only m = Inr sel \<and>
        mset (rows sel) =
          image_mset (\<lambda>lr. lr @ replicate (length (rlabels db ago on)) (NA NaN))
            (filter_mset (unmatched on db ago) (mset (rows db)))"
    by simp
next
  assume cl: "\<forall>col \<in> set (columns db) \<union> set (columns ago). clean col"
  let ?to_add = "\<lparr>columns = columns db, rows = filter (unmatched on db ago) (rows db)\<rparr>"
  have "records_to_add ago db on = Inr ?to_add"
    by (rule records_to_add_clean(4) [OF m wl wr cl])
  moreover have "sync_data e ago db on =
             (if rows ?to_add = [] then Inr NoNewRecords
              else Inr (Delivered ?to_add (fst (add_to_ago e ?to_add))))"
    using sync_data_clean [OF m wl wr cl, of e] by simp
  ultimately show "\<exists>to_add.
           records_to_add ago db on = Inr to_add \<and>
           columns to_add = columns db \<and>
           mset (rows to_add) = filter_mset (unmatched on db ago) (mset (rows db)) \<and>
           set (rows to_add) \<subseteq> set (rows db) \<and>
           sync_data e ago db on =
             (if rows to_add = [] then Inr NoNewRecords
              else Inr (Delivered to_add (fst (add_to_ago e to_add))))"
    by (intro exI [of _ ?to_add]) auto
qed

theorem delivery_is_left_only_witness:
  "pd_merge db_frame ago_frame [''id''] = Inr merged_frame \<and>
   wf_frame db_frame \<and> wf_frame ago_frame \<and>
   list_all clean (columns db_frame @ columns ago_frame) \<and>
   (\<exists>sel. select_left_only merged_frame = Inr sel \<and>
      mset (rows sel) = {#[Num 2, Str ''bo'', Str ''new'', NA NaN, NA NaN]#}) \<and>
   (\<exists>to_add.
      records_to_add ago_frame db_frame [''id''] = Inr to_add \<and>
      columns to_add = [''id'', ''name'', ''notes''] \<and>
      mset (rows to_add) = {#[Num 2, Str ''bo'', Str ''new'']#} \<and>
      sync_data count_layer ago_frame db_frame [''id''] =
        Inr (Delivered to_add (fst (add_to_ago count_layer to_add))))"
proof -
  note t = delivery_is_left_only [OF sample_merge sample_frames(1) sample_frames(2), of count_layer]
  have len: "length (rlabels db_frame ago_frame [''id'']) = 2"
    by (simp add: rlabels_def db_frame_def ago_frame_def)
  have un: "filter_mset (unmatched [''id''] db_frame ago_frame) (mset (rows db_frame)) =
      {#[Num 2, Str ''bo'', Str ''new'']#}"
    using sample_unmatched by (simp flip: mset_filter)
  have cols: "columns db_frame = [''id'', ''name'', ''notes'']"
    by (simp add: db_frame_def)
  from t have "\<exists>sel. select_left_only merged_frame = Inr sel \<and>
      mset (rows sel) = {#[Num 2, Str ''bo'', Str ''new'', NA NaN, NA NaN]#}"
    by (simp add: un len numeral_2_eq_2)
  moreover have "\<exists>to_add.
      records_to_add ago_frame db_frame [''id''] = Inr to_add \<and>
      columns to_add = [''id'', ''name'', ''notes''] \<and>
      mset (rows to_add) = {#[Num 2, Str ''bo'', Str ''new'']#} \<and>
      sync_data count_layer ago_frame db_frame [''id''] =
        Inr (Delivered to_add (fst (add_to_ago count_layer to_add)))"
  proof -
    have cl: "\<forall>col \<in> set (columns db_frame) \<union> set (columns ago_frame). clean col"
      by (rule clean_all [OF sample_frames(5)])
    from t [THEN conjunct2, THEN mp, OF cl] obtain to_add where
      ta: "records_to_add ago_frame db_frame [''id''] = Inr to_add"
        "columns to_add = columns db_frame"
        "mset (rows to_add) = filter_mset (unmatched [''id''] db_frame ago_frame) (mset (rows db_frame))"
        "sync_data count_layer ago_frame db_frame [''id''] =
           (if rows to_add = [] then Inr NoNewRecords
            else Inr (Delivered to_add (fst (add_to_ago count_layer to_add))))"
      by blast
    from ta(3) have "rows to_add \<noteq> []" unfolding un by auto
    with ta show ?thesis
      by (intro exI [of _ to_add]) (simp add: un cols)
  qed
  ultimately show ?thesis
    using sample_merge sample_frames by simp
qed







end
